theory Spec2Isabelle
  imports Main "HOL-Library.AList" "HOL-Library.Sublist"
begin

section \<open>The chat server of \<open>server.js\<close>: data model\<close>

text \<open>
  The server keeps four module-level variables: \<open>serverSettings\<close>, \<open>messages\<close> (an array),
  \<open>users\<close> (a JavaScript \<open>Map\<close> from socket id to user object) and \<open>voiceRooms\<close> (a
  \<open>Map\<close> from room id to a \<open>Set\<close> of socket ids). A JavaScript \<open>Map\<close> iterates in
  insertion order and \<open>Map.set\<close> on a key that is present keeps the key's position, so a
  \<open>Map\<close> is an association list with \<open>AList.update\<close> (replace in place, else append),
  \<open>AList.delete\<close> and \<open>map_of\<close>. A \<open>Set\<close> is a duplicate-free list in insertion order.

  A JavaScript string is a sequence of UTF-16 code units; a text that the server reads or
  transforms (a user name, a message content, a query, a colour, an emoji) is a list of
  code units, each a number below \<open>0x10000\<close>. Identifiers that the server only compares
  (socket ids, message ids, room ids) are \<open>string\<close>s. \<open>utf16\<close> turns an ASCII literal
  into its code units.

  Each handler runs to completion, so an event is one step. What the environment supplies
  to a handler is part of its input: the socket id, the clock value that \<open>new Date()\<close>
  reads and the identifier that \<open>uuidv4()\<close> returns. Calls of \<open>console.log\<close> are left
  out.
\<close>

type_synonym socket_id = string
type_synonym msg_id = string
type_synonym room_id = string
type_synonym time = nat
type_synonym code_unit = nat
type_synonym jstring = "code_unit list"

definition utf16 :: "string \<Rightarrow> jstring" where
  "utf16 s = map of_char s"

text \<open>A value received from a client where the code tests \<open>typeof input !== 'string'\<close>.\<close>

datatype jsval = Str jstring | NotString

record user =
  u_id :: socket_id
  u_username :: jstring
  u_bubbleColor :: jstring
  isOwner :: bool
  joinTime :: time

datatype msg_type = System | UserMsg

text \<open>
  A system message has only \<open>id\<close>, \<open>type\<close>, \<open>content\<close>, \<open>timestamp\<close> and \<open>username\<close>;
  the fields it lacks are \<open>None\<close>. \<open>reactions\<close> is a \<open>Map\<close> from emoji to an array of
  user names. \<open>formatting\<close>, \<open>attachment\<close> and \<open>replyTo\<close> are opaque to the server; a falsy
  value is \<open>None\<close>.
\<close>

record message =
  m_id :: msg_id
  m_type :: msg_type
  m_content :: jstring
  m_username :: jstring
  m_userId :: "socket_id option"
  m_bubbleColor :: "jstring option"
  m_timestamp :: time
  m_formatting :: "string option"
  m_attachment :: "string option"
  m_replyTo :: "string option"
  m_reactions :: "(jstring \<times> jstring list) list option"
  m_edited :: bool
  m_editedAt :: "time option"

record server_settings =
  allowHistoryForNewUsers :: bool
  maxMessageLength :: nat
  allowAttachments :: bool
  allowVoiceChat :: bool
  serverName :: jstring
  ownerId :: "socket_id option"

text \<open>The argument of \<open>update_server_settings\<close>: a field that the object lacks is \<open>None\<close>.\<close>

record settings_patch =
  p_allowHistoryForNewUsers :: "bool option"
  p_maxMessageLength :: "nat option"
  p_allowAttachments :: "bool option"
  p_allowVoiceChat :: "bool option"
  p_serverName :: "jstring option"
  p_ownerId :: "socket_id option option"

record state =
  serverSettings :: server_settings
  messages :: "message list"
  users :: "(socket_id \<times> user) list"
  voiceRooms :: "(room_id \<times> socket_id list) list"

record userData =
  ud_username :: jsval
  ud_bubbleColor :: jstring

record messageData =
  md_content :: jsval
  md_formatting :: "string option"
  md_attachment :: "string option"
  md_replyTo :: "string option"

text \<open>
  The events whose handlers read a field of their payload. Such an event can arrive with
  no payload (\<open>undefined\<close> or \<open>null\<close>); then reading the field raises a \<open>TypeError\<close>.
\<close>

datatype event_name =
    On_user_join
  | On_send_message
  | On_edit_message
  | On_add_reaction
  | On_webrtc_offer
  | On_webrtc_answer
  | On_webrtc_ice_candidate

datatype event =
    Connection
  | User_join userData
  | Change_username jsval
  | Change_bubble_color jstring
  | Send_message messageData
  | Edit_message msg_id jsval
  | Delete_message msg_id
  | Add_reaction msg_id jstring
  | Join_voice room_id
  | Leave_voice room_id
  | Update_server_settings settings_patch
  | Search_messages jsval
  | Webrtc_offer socket_id string
  | Webrtc_answer socket_id string
  | Webrtc_ice_candidate socket_id string
  | Disconnect
  | Missing_payload event_name

record input =
  sock :: socket_id
  now :: time
  uuid :: msg_id
  ev :: event

text \<open>
  What a handler sends: \<open>socket.emit\<close> (\<open>To_sender\<close>), \<open>io.emit\<close> (\<open>To_all\<close>),
  \<open>io.to(room).emit\<close> (\<open>To_room\<close>) and \<open>socket.to(room).emit\<close> (\<open>To_room_except_sender\<close>).
  \<open>socket.join\<close> and \<open>socket.leave\<close> act on the rooms of the socket library and are
  recorded as well. An exception that a handler raises leaves the handler: it undoes
  nothing of what the handler did before, so the result of a handler is the state and the
  actions so far, with \<open>Throw\<close> as the last action.
\<close>

datatype error = TypeError

datatype target = To_sender | To_all | To_room string | To_room_except_sender string

datatype payload =
    Owner_status bool
  | Server_settings server_settings
  | User_data user
  | Message_history "message list"
  | Users_update "user list"
  | New_message message
  | Message_edited msg_id jstring bool time
  | Message_deleted msg_id
  | Reaction_added msg_id jstring "jstring list"
  | Voice_user_joined socket_id jstring
  | Voice_user_left socket_id
  | Search_results "message list"
  | Webrtc_offer_from string socket_id
  | Webrtc_answer_from string socket_id
  | Webrtc_ice_candidate_from string socket_id

datatype action = Emit target payload | Socket_join string | Socket_leave string | Throw error

definition initial_settings :: server_settings where
  "initial_settings =
     \<lparr>allowHistoryForNewUsers = True, maxMessageLength = 1000, allowAttachments = True,
      allowVoiceChat = True, serverName = utf16 ''Chat Server'', ownerId = None\<rparr>"

definition initial_state :: state where
  "initial_state =
     \<lparr>serverSettings = initial_settings, messages = [], users = [], voiceRooms = []\<rparr>"

section \<open>Utility functions\<close>

text \<open>
  The white space of \<open>String.prototype.trim\<close> and of the regular expression class
  \<open>\s\<close>: the code points \<open>WhiteSpace\<close> and \<open>LineTerminator\<close> of the language.
\<close>

definition isSpace :: "code_unit \<Rightarrow> bool" where
  "isSpace c =
     (c \<in> set [0x09, 0x0A, 0x0B, 0x0C, 0x0D, 0x20, 0xA0, 0x1680, 0x2028, 0x2029, 0x202F,
              0x205F, 0x3000, 0xFEFF] \<or>
      (0x2000 \<le> c \<and> c \<le> 0x200A))"

definition trim :: "jstring \<Rightarrow> jstring" where
  "trim s = rev (dropWhile isSpace (rev (dropWhile isSpace s)))"

text \<open>\<open>input.replace(/[<>]/g, '').trim()\<close>, and \<open>''\<close> for a value that is not a string.\<close>

definition sanitizeInput :: "jsval \<Rightarrow> jstring" where
  "sanitizeInput v =
     (case v of
        NotString \<Rightarrow> []
      | Str s \<Rightarrow> trim (filter (\<lambda>c. c \<noteq> 0x3C \<and> c \<noteq> 0x3E) s))"

text \<open>
  \<open>processMessage\<close> replaces every match of \<open>/(https?:\/\/[^\s]+)/g\<close> by an anchor element.
  A match starts at \<open>http://\<close> or \<open>https://\<close> followed by a code unit that is not white
  space, and runs to the next white space.
\<close>

definition url_start :: "jstring \<Rightarrow> bool" where
  "url_start t =
     ((prefix (utf16 ''http://'') t \<and> drop 7 t \<noteq> [] \<and> \<not> isSpace (hd (drop 7 t))) \<or>
      (prefix (utf16 ''https://'') t \<and> drop 8 t \<noteq> [] \<and> \<not> isSpace (hd (drop 8 t))))"

definition anchor :: "jstring \<Rightarrow> jstring" where
  "anchor url =
     utf16 ''<a href='' @ [0x22] @ url @ [0x22] @ utf16 '' target='' @ [0x22] @
     utf16 ''_blank'' @ [0x22] @ utf16 '' rel='' @ [0x22] @ utf16 ''noopener noreferrer'' @
     [0x22] @ utf16 ''>'' @ url @ utf16 ''</a>''"

function processMessage :: "jstring \<Rightarrow> jstring" where
  "processMessage [] = []"
| "processMessage (c # cs) =
     (if url_start (c # cs)
      then anchor (c # takeWhile (\<lambda>x. \<not> isSpace x) cs) @
           processMessage (dropWhile (\<lambda>x. \<not> isSpace x) cs)
      else c # processMessage cs)"
  by pat_completeness auto
termination
  by (relation "measure length") (auto simp: length_dropWhile_le le_imp_less_Suc)

text \<open>
  \<open>String.prototype.toLowerCase\<close> maps every code point to its lower case by the tables
  of the Unicode standard, which are data of the JavaScript runtime and not of this
  repository. The model has the part of the tables for Basic Latin, the Latin-1 Supplement
  and the Greek letters \<open>U+0391\<close> to \<open>U+03CB\<close>, and it is exact for text of these code
  units; every other code unit is left as it is. In these blocks a capital other than
  \<open>U+03A3\<close> is \<open>0x20\<close> below its small letter. The capital sigma \<open>U+03A3\<close> becomes the
  final small sigma \<open>U+03C2\<close> when a cased letter comes before it and none comes after it,
  characters that casing ignores apart (the condition \<open>Final_Sigma\<close> of the standard), and
  the small sigma \<open>U+03C3\<close> otherwise. \<open>cased\<close> and \<open>case_ignorable\<close> are the properties
  \<open>Cased\<close> and \<open>Case_Ignorable\<close> of the standard on these blocks.
\<close>

definition lower_unit :: "code_unit \<Rightarrow> code_unit" where
  "lower_unit c =
     (if (0x41 \<le> c \<and> c \<le> 0x5A) \<or> (0xC0 \<le> c \<and> c \<le> 0xD6) \<or> (0xD8 \<le> c \<and> c \<le> 0xDE) \<or>
         (0x391 \<le> c \<and> c \<le> 0x3A1) \<or> (0x3A3 \<le> c \<and> c \<le> 0x3AB)
      then c + 0x20 else c)"

definition cased :: "code_unit \<Rightarrow> bool" where
  "cased c =
     ((0x41 \<le> c \<and> c \<le> 0x5A) \<or> (0x61 \<le> c \<and> c \<le> 0x7A) \<or> c = 0xAA \<or> c = 0xB5 \<or>
      c = 0xBA \<or> (0xC0 \<le> c \<and> c \<le> 0xD6) \<or> (0xD8 \<le> c \<and> c \<le> 0xF6) \<or>
      (0xF8 \<le> c \<and> c \<le> 0xFF) \<or> (0x391 \<le> c \<and> c \<le> 0x3A1) \<or>
      (0x3A3 \<le> c \<and> c \<le> 0x3CB))"

definition case_ignorable :: "code_unit \<Rightarrow> bool" where
  "case_ignorable c =
     (c \<in> set [0x27, 0x2E, 0x3A, 0x5E, 0x60, 0xA8, 0xAD, 0xAF, 0xB4, 0xB7, 0xB8])"

text \<open>The first argument is the text before the sigma, nearest code unit first.\<close>

definition final_sigma :: "jstring \<Rightarrow> jstring \<Rightarrow> bool" where
  "final_sigma before after =
     ((case dropWhile case_ignorable before of [] \<Rightarrow> False | b # _ \<Rightarrow> cased b) \<and>
      \<not> (case dropWhile case_ignorable after of [] \<Rightarrow> False | a # _ \<Rightarrow> cased a))"

fun lower_from :: "jstring \<Rightarrow> jstring \<Rightarrow> jstring" where
  "lower_from before [] = []"
| "lower_from before (c # cs) =
     (if c = 0x3A3 \<and> final_sigma before cs then 0x3C2 else lower_unit c) #
     lower_from (c # before) cs"

definition toLowerCase :: "jstring \<Rightarrow> jstring" where
  "toLowerCase s = lower_from [] s"

text \<open>\<open>String.prototype.includes\<close>: the argument occurs as a contiguous part.\<close>

fun str_includes :: "jstring \<Rightarrow> jstring \<Rightarrow> bool" where
  "str_includes [] q = (q = [])"
| "str_includes (c # cs) q = (prefix q (c # cs) \<or> str_includes cs q)"

text \<open>\<open>Array.prototype.findIndex\<close>, with \<open>None\<close> for \<open>-1\<close>.\<close>

fun findIndex :: "('a \<Rightarrow> bool) \<Rightarrow> 'a list \<Rightarrow> nat option" where
  "findIndex P [] = None"
| "findIndex P (x # xs) =
     (if P x then Some 0 else (case findIndex P xs of None \<Rightarrow> None | Some i \<Rightarrow> Some (Suc i)))"

text \<open>\<open>messages.splice(i, 1)\<close>.\<close>

definition splice1 :: "nat \<Rightarrow> 'a list \<Rightarrow> 'a list" where
  "splice1 i xs = take i xs @ drop (Suc i) xs"

text \<open>\<open>Set.prototype.add\<close> and \<open>Set.prototype.delete\<close>.\<close>

definition set_add :: "'a \<Rightarrow> 'a list \<Rightarrow> 'a list" where
  "set_add x xs = (if x \<in> set xs then xs else xs @ [x])"

definition set_delete :: "'a \<Rightarrow> 'a list \<Rightarrow> 'a list" where
  "set_delete x xs = removeAll x xs"

definition system_message :: "msg_id \<Rightarrow> jstring \<Rightarrow> time \<Rightarrow> message" where
  "system_message i c t =
     \<lparr>m_id = i, m_type = System, m_content = c, m_username = utf16 ''System'', m_userId = None,
      m_bubbleColor = None, m_timestamp = t, m_formatting = None, m_attachment = None,
      m_replyTo = None, m_reactions = None, m_edited = False, m_editedAt = None\<rparr>"

definition voice_room :: "room_id \<Rightarrow> string" where
  "voice_room roomId = ''voice_'' @ roomId"

section \<open>The handlers\<close>

definition on_connection :: "state \<Rightarrow> socket_id \<Rightarrow> state \<times> action list" where
  "on_connection s sid =
     (if ownerId (serverSettings s) = None
      then (let st = (serverSettings s)\<lparr>ownerId := Some sid\<rparr>
            in (s\<lparr>serverSettings := st\<rparr>,
                [Emit To_sender (Owner_status True), Emit To_sender (Server_settings st)]))
      else (s, [Emit To_sender (Server_settings (serverSettings s))]))"

definition on_user_join ::
  "state \<Rightarrow> socket_id \<Rightarrow> time \<Rightarrow> msg_id \<Rightarrow> userData \<Rightarrow> state \<times> action list" where
  "on_user_join s sid t i d =
     (let sanitizedUsername =
            (if sanitizeInput (ud_username d) = [] then utf16 ''Anonymous''
             else sanitizeInput (ud_username d));
          usr = \<lparr>u_id = sid, u_username = sanitizedUsername,
                 u_bubbleColor = (if ud_bubbleColor d = [] then utf16 ''#007bff'' else ud_bubbleColor d),
                 isOwner = (Some sid = ownerId (serverSettings s)), joinTime = t\<rparr>;
          users1 = AList.update sid usr (users s);
          joinMessage = system_message i (sanitizedUsername @ utf16 '' joined the chat'') t
      in (s\<lparr>users := users1, messages := messages s @ [joinMessage]\<rparr>,
          [Emit To_sender (User_data usr)] @
          (if allowHistoryForNewUsers (serverSettings s)
           then [Emit To_sender (Message_history (messages s))] else []) @
          [Emit To_all (Users_update (map snd users1)), Emit To_all (New_message joinMessage)]))"

definition on_change_username ::
  "state \<Rightarrow> socket_id \<Rightarrow> time \<Rightarrow> msg_id \<Rightarrow> jsval \<Rightarrow> state \<times> action list" where
  "on_change_username s sid t i newUsername =
     (case map_of (users s) sid of
        None \<Rightarrow> (s, [])
      | Some usr \<Rightarrow>
          (let oldUsername = u_username usr;
               sanitizedUsername =
                 (if sanitizeInput newUsername = [] then utf16 ''Anonymous''
                  else sanitizeInput newUsername);
               users1 = AList.update sid (usr\<lparr>u_username := sanitizedUsername\<rparr>) (users s);
               changeMessage =
                 system_message i
                   (oldUsername @ utf16 '' changed their name to '' @ sanitizedUsername) t
           in (s\<lparr>users := users1, messages := messages s @ [changeMessage]\<rparr>,
               [Emit To_all (New_message changeMessage),
                Emit To_all (Users_update (map snd users1))])))"

definition on_change_bubble_color :: "state \<Rightarrow> socket_id \<Rightarrow> jstring \<Rightarrow> state \<times> action list" where
  "on_change_bubble_color s sid newColor =
     (case map_of (users s) sid of
        None \<Rightarrow> (s, [])
      | Some usr \<Rightarrow>
          (let users1 = AList.update sid (usr\<lparr>u_bubbleColor := newColor\<rparr>) (users s)
           in (s\<lparr>users := users1\<rparr>, [Emit To_all (Users_update (map snd users1))])))"

definition on_send_message ::
  "state \<Rightarrow> socket_id \<Rightarrow> time \<Rightarrow> msg_id \<Rightarrow> messageData \<Rightarrow> state \<times> action list" where
  "on_send_message s sid t i d =
     (case map_of (users s) sid of
        None \<Rightarrow> (s, [])
      | Some usr \<Rightarrow>
          (let sanitizedContent = sanitizeInput (md_content d)
           in if sanitizedContent = [] \<and> md_attachment d = None then (s, [])
              else (let msg =
                          \<lparr>m_id = i, m_type = UserMsg,
                           m_content = processMessage sanitizedContent,
                           m_username = u_username usr, m_userId = Some sid,
                           m_bubbleColor = Some (u_bubbleColor usr), m_timestamp = t,
                           m_formatting = md_formatting d, m_attachment = md_attachment d,
                           m_replyTo = md_replyTo d, m_reactions = Some [],
                           m_edited = False, m_editedAt = None\<rparr>
                    in (s\<lparr>messages := messages s @ [msg]\<rparr>, [Emit To_all (New_message msg)]))))"

definition on_edit_message ::
  "state \<Rightarrow> socket_id \<Rightarrow> time \<Rightarrow> msg_id \<Rightarrow> jsval \<Rightarrow> state \<times> action list" where
  "on_edit_message s sid t messageId newContent =
     (case findIndex (\<lambda>msg. m_id msg = messageId) (messages s) of
        None \<Rightarrow> (s, [])
      | Some messageIndex \<Rightarrow>
          if m_userId (messages s ! messageIndex) = Some sid
          then (let msg = (messages s ! messageIndex)
                            \<lparr>m_content := processMessage (sanitizeInput newContent),
                             m_edited := True, m_editedAt := Some t\<rparr>
                in (s\<lparr>messages := (messages s)[messageIndex := msg]\<rparr>,
                    [Emit To_all (Message_edited messageId (m_content msg) True t)]))
          else (s, []))"

definition on_delete_message :: "state \<Rightarrow> socket_id \<Rightarrow> msg_id \<Rightarrow> state \<times> action list" where
  "on_delete_message s sid messageId =
     (case findIndex (\<lambda>msg. m_id msg = messageId) (messages s) of
        None \<Rightarrow> (s, [])
      | Some messageIndex \<Rightarrow>
          if m_userId (messages s ! messageIndex) = Some sid \<or>
             (case map_of (users s) sid of None \<Rightarrow> False | Some usr \<Rightarrow> isOwner usr)
          then (s\<lparr>messages := splice1 messageIndex (messages s)\<rparr>,
                [Emit To_all (Message_deleted messageId)])
          else (s, []))"

definition on_add_reaction ::
  "state \<Rightarrow> socket_id \<Rightarrow> msg_id \<Rightarrow> jstring \<Rightarrow> state \<times> action list" where
  "on_add_reaction s sid messageId emoji =
     (case (findIndex (\<lambda>msg. m_id msg = messageId) (messages s), map_of (users s) sid) of
        (Some messageIndex, Some usr) \<Rightarrow>
          (let msg = messages s ! messageIndex;
               reactions1 = (case m_reactions msg of None \<Rightarrow> [] | Some r \<Rightarrow> r);
               reactions2 =
                 (case map_of reactions1 emoji of
                    None \<Rightarrow> AList.update emoji [] reactions1
                  | Some _ \<Rightarrow> reactions1);
               reactionUsers = (case map_of reactions2 emoji of None \<Rightarrow> [] | Some us \<Rightarrow> us)
           in if u_username usr \<notin> set reactionUsers
              then (let reactionUsers1 = reactionUsers @ [u_username usr];
                        msg1 = msg\<lparr>m_reactions :=
                                     Some (AList.update emoji reactionUsers1 reactions2)\<rparr>
                    in (s\<lparr>messages := (messages s)[messageIndex := msg1]\<rparr>,
                        [Emit To_all (Reaction_added messageId emoji reactionUsers1)]))
              else (s\<lparr>messages :=
                        (messages s)[messageIndex := msg\<lparr>m_reactions := Some reactions2\<rparr>]\<rparr>,
                    []))
      | _ \<Rightarrow> (s, []))"

definition on_join_voice :: "state \<Rightarrow> socket_id \<Rightarrow> room_id \<Rightarrow> state \<times> action list" where
  "on_join_voice s sid roomId =
     (if \<not> allowVoiceChat (serverSettings s) then (s, [])
      else (case map_of (users s) sid of
              None \<Rightarrow> (s, [])
            | Some usr \<Rightarrow>
                (let rooms1 =
                       (case map_of (voiceRooms s) roomId of
                          None \<Rightarrow> AList.update roomId [] (voiceRooms s)
                        | Some _ \<Rightarrow> voiceRooms s);
                     room = (case map_of rooms1 roomId of None \<Rightarrow> [] | Some r \<Rightarrow> r)
                 in (s\<lparr>voiceRooms := AList.update roomId (set_add sid room) rooms1\<rparr>,
                     [Socket_join (voice_room roomId),
                      Emit (To_room (voice_room roomId))
                        (Voice_user_joined sid (u_username usr))]))))"

definition on_leave_voice :: "state \<Rightarrow> socket_id \<Rightarrow> room_id \<Rightarrow> state \<times> action list" where
  "on_leave_voice s sid roomId =
     (case map_of (voiceRooms s) roomId of
        None \<Rightarrow> (s, [])
      | Some room \<Rightarrow>
          (let room1 = set_delete sid room;
               rooms1 = AList.update roomId room1 (voiceRooms s)
           in (s\<lparr>voiceRooms := (if room1 = [] then AList.delete roomId rooms1 else rooms1)\<rparr>,
               [Socket_leave (voice_room roomId),
                Emit (To_room (voice_room roomId)) (Voice_user_left sid)])))"

text \<open>\<open>{ ...serverSettings, ...newSettings }\<close>: the fields of the patch overwrite.\<close>

definition merge_settings :: "server_settings \<Rightarrow> settings_patch \<Rightarrow> server_settings" where
  "merge_settings st p =
     \<lparr>allowHistoryForNewUsers =
        (case p_allowHistoryForNewUsers p of None \<Rightarrow> allowHistoryForNewUsers st | Some v \<Rightarrow> v),
      maxMessageLength =
        (case p_maxMessageLength p of None \<Rightarrow> maxMessageLength st | Some v \<Rightarrow> v),
      allowAttachments =
        (case p_allowAttachments p of None \<Rightarrow> allowAttachments st | Some v \<Rightarrow> v),
      allowVoiceChat = (case p_allowVoiceChat p of None \<Rightarrow> allowVoiceChat st | Some v \<Rightarrow> v),
      serverName = (case p_serverName p of None \<Rightarrow> serverName st | Some v \<Rightarrow> v),
      ownerId = (case p_ownerId p of None \<Rightarrow> ownerId st | Some v \<Rightarrow> v)\<rparr>"

definition on_update_server_settings ::
  "state \<Rightarrow> socket_id \<Rightarrow> settings_patch \<Rightarrow> state \<times> action list" where
  "on_update_server_settings s sid newSettings =
     (case map_of (users s) sid of
        None \<Rightarrow> (s, [])
      | Some usr \<Rightarrow>
          if isOwner usr
          then (let st = merge_settings (serverSettings s) newSettings
                in (s\<lparr>serverSettings := st\<rparr>, [Emit To_all (Server_settings st)]))
          else (s, []))"

definition on_search_messages :: "state \<Rightarrow> socket_id \<Rightarrow> jsval \<Rightarrow> state \<times> action list" where
  "on_search_messages s sid query =
     (let sanitizedQuery = toLowerCase (sanitizeInput query);
          results =
            filter (\<lambda>msg. str_includes (toLowerCase (m_content msg)) sanitizedQuery \<or>
                           str_includes (toLowerCase (m_username msg)) sanitizedQuery)
              (messages s)
      in (s, [Emit To_sender (Search_results results)]))"

definition on_webrtc_offer ::
  "state \<Rightarrow> socket_id \<Rightarrow> socket_id \<Rightarrow> string \<Rightarrow> state \<times> action list" where
  "on_webrtc_offer s sid tgt offer =
     (s, [Emit (To_room_except_sender tgt) (Webrtc_offer_from offer sid)])"

definition on_webrtc_answer ::
  "state \<Rightarrow> socket_id \<Rightarrow> socket_id \<Rightarrow> string \<Rightarrow> state \<times> action list" where
  "on_webrtc_answer s sid tgt answer =
     (s, [Emit (To_room_except_sender tgt) (Webrtc_answer_from answer sid)])"

definition on_webrtc_ice_candidate ::
  "state \<Rightarrow> socket_id \<Rightarrow> socket_id \<Rightarrow> string \<Rightarrow> state \<times> action list" where
  "on_webrtc_ice_candidate s sid tgt candidate =
     (s, [Emit (To_room_except_sender tgt) (Webrtc_ice_candidate_from candidate sid)])"

text \<open>
  The \<open>voiceRooms.forEach\<close> of the disconnect handler: every room that has the socket loses
  it, the room is told, and a room left empty is deleted. Deleting the entry being visited
  does not disturb the iteration over the others.
\<close>

fun purge_voiceRooms ::
  "socket_id \<Rightarrow> (room_id \<times> socket_id list) list \<Rightarrow>
   (room_id \<times> socket_id list) list \<times> action list" where
  "purge_voiceRooms sid [] = ([], [])"
| "purge_voiceRooms sid ((roomId, room) # rest) =
     (let (rest1, out) = purge_voiceRooms sid rest
      in if sid \<in> set room
         then ((if set_delete sid room = [] then rest1
                else (roomId, set_delete sid room) # rest1),
               Emit (To_room (voice_room roomId)) (Voice_user_left sid) # out)
         else ((roomId, room) # rest1, out))"

definition on_disconnect ::
  "state \<Rightarrow> socket_id \<Rightarrow> time \<Rightarrow> msg_id \<Rightarrow> state \<times> action list" where
  "on_disconnect s sid t i =
     (case map_of (users s) sid of
        None \<Rightarrow> (s, [])
      | Some usr \<Rightarrow>
          (let users1 = AList.delete sid (users s);
               (rooms1, left) = purge_voiceRooms sid (voiceRooms s);
               leaveMessage = system_message i (u_username usr @ utf16 '' left the chat'') t;
               s1 = s\<lparr>users := users1, voiceRooms := rooms1,
                      messages := messages s @ [leaveMessage]\<rparr>;
               out = left @ [Emit To_all (New_message leaveMessage),
                             Emit To_all (Users_update (map snd users1))]
           in if isOwner usr
              then (case users1 of
                      [] \<Rightarrow> (s1, out)
                    | (k, newOwner) # others \<Rightarrow>
                        (let st = (serverSettings s)\<lparr>ownerId := Some (u_id newOwner)\<rparr>
                         in (s1\<lparr>users := (k, newOwner\<lparr>isOwner := True\<rparr>) # others,
                                serverSettings := st\<rparr>,
                             out @ [Emit (To_room (u_id newOwner)) (Owner_status True),
                                    Emit To_all (Server_settings st)])))
              else (s1, out)))"

text \<open>
  An event that arrives with no payload. \<open>user_join\<close> reads \<open>userData.username\<close> in its
  first statement, \<open>edit_message\<close> and \<open>add_reaction\<close> destructure \<open>data\<close> in their first
  statement, and the signaling handlers read \<open>data.target\<close> before they emit: each raises
  a \<open>TypeError\<close> before it has read or changed anything. \<open>send_message\<close> returns for a
  socket that is not registered, and reads \<open>messageData.content\<close> otherwise.
\<close>

definition on_missing_payload :: "state \<Rightarrow> socket_id \<Rightarrow> event_name \<Rightarrow> state \<times> action list" where
  "on_missing_payload s sid name =
     (case name of
        On_send_message \<Rightarrow>
          (case map_of (users s) sid of
             None \<Rightarrow> (s, [])
           | Some usr \<Rightarrow> (s, [Throw TypeError]))
      | _ \<Rightarrow> (s, [Throw TypeError]))"

section \<open>Events and runs\<close>

text \<open>
  An exception that no handler of the server catches ends the Node process unless the host
  catches it. \<open>run\<close> goes on after a \<open>Throw\<close>, so the states it reaches include those of
  a host that survives the exception.
\<close>

definition handle :: "state \<Rightarrow> input \<Rightarrow> state \<times> action list" where
  "handle s x =
     (case ev x of
        Connection \<Rightarrow> on_connection s (sock x)
      | User_join d \<Rightarrow> on_user_join s (sock x) (now x) (uuid x) d
      | Change_username n \<Rightarrow> on_change_username s (sock x) (now x) (uuid x) n
      | Change_bubble_color c \<Rightarrow> on_change_bubble_color s (sock x) c
      | Send_message d \<Rightarrow> on_send_message s (sock x) (now x) (uuid x) d
      | Edit_message m c \<Rightarrow> on_edit_message s (sock x) (now x) m c
      | Delete_message m \<Rightarrow> on_delete_message s (sock x) m
      | Add_reaction m e \<Rightarrow> on_add_reaction s (sock x) m e
      | Join_voice r \<Rightarrow> on_join_voice s (sock x) r
      | Leave_voice r \<Rightarrow> on_leave_voice s (sock x) r
      | Update_server_settings p \<Rightarrow> on_update_server_settings s (sock x) p
      | Search_messages q \<Rightarrow> on_search_messages s (sock x) q
      | Webrtc_offer tg d \<Rightarrow> on_webrtc_offer s (sock x) tg d
      | Webrtc_answer tg d \<Rightarrow> on_webrtc_answer s (sock x) tg d
      | Webrtc_ice_candidate tg d \<Rightarrow> on_webrtc_ice_candidate s (sock x) tg d
      | Disconnect \<Rightarrow> on_disconnect s (sock x) (now x) (uuid x)
      | Missing_payload n \<Rightarrow> on_missing_payload s (sock x) n)"

fun run :: "state \<Rightarrow> input list \<Rightarrow> state" where
  "run s [] = s"
| "run s (x # xs) = run (fst (handle s x)) xs"

text \<open>
  A trace that the socket library can deliver: a connection gets an id that was never used,
  every other event comes from a socket that is connected, and a disconnected socket sends
  nothing more. The first argument lists the connected sockets, the second all ids used.
\<close>

fun deliverable :: "socket_id list \<Rightarrow> socket_id list \<Rightarrow> input list \<Rightarrow> bool" where
  "deliverable conn used [] = True"
| "deliverable conn used (x # xs) =
     (case ev x of
        Connection \<Rightarrow> sock x \<notin> set used \<and> deliverable (sock x # conn) (sock x # used) xs
      | Disconnect \<Rightarrow> sock x \<in> set conn \<and> deliverable (removeAll (sock x) conn) used xs
      | _ \<Rightarrow> sock x \<in> set conn \<and> deliverable conn used xs)"

section \<open>Properties named by the specification, and example runs\<close>

text \<open>
  The specification's wording of who may delete a message: the message exists, and the
  actor authored it or the actor's user record is flagged as owner.
\<close>

definition may_delete :: "state \<Rightarrow> socket_id \<Rightarrow> msg_id \<Rightarrow> bool" where
  "may_delete s sid messageId =
     (\<exists>m\<in>set (messages s). m_id m = messageId \<and>
        (m_userId m = Some sid \<or> (\<exists>u. map_of (users s) sid = Some u \<and> isOwner u)))"







text \<open>The query occurs in the text as it is.\<close>

definition contains_text :: "jstring \<Rightarrow> jstring \<Rightarrow> bool" where
  "contains_text txt q = (\<exists>pre post. txt = pre @ q @ post)"

text \<open>Invariants of the reachable states.\<close>

definition rooms_nonempty :: "state \<Rightarrow> bool" where
  "rooms_nonempty s = (\<forall>(roomId, room)\<in>set (voiceRooms s). room \<noteq> [])"

text \<open>
  The reactions of a message as the handler reads them: \<open>reactions\<close> (empty when the
  message has none) and the list stored for an emoji (empty when the emoji has none).
\<close>

definition reactions_of :: "message \<Rightarrow> (jstring \<times> jstring list) list" where
  "reactions_of m = (case m_reactions m of None \<Rightarrow> [] | Some r \<Rightarrow> r)"

definition reaction_users :: "message \<Rightarrow> jstring \<Rightarrow> jstring list" where
  "reaction_users m emoji = (case map_of (reactions_of m) emoji of None \<Rightarrow> [] | Some us \<Rightarrow> us)"

definition reactions_ok :: "message \<Rightarrow> bool" where
  "reactions_ok m = (\<forall>(emoji, us)\<in>set (reactions_of m). distinct us)"

definition reactions_distinct :: "state \<Rightarrow> bool" where
  "reactions_distinct s = (\<forall>m\<in>set (messages s). reactions_ok m)"



text \<open>Inputs and traces for the concrete instances below.\<close>

definition inp :: "socket_id \<Rightarrow> time \<Rightarrow> msg_id \<Rightarrow> event \<Rightarrow> input" where
  "inp a t i e = \<lparr>sock = a, now = t, uuid = i, ev = e\<rparr>"

definition joining :: "string \<Rightarrow> event" where
  "joining n = User_join \<lparr>ud_username = Str (utf16 n), ud_bubbleColor = []\<rparr>"

definition sending_units :: "jstring \<Rightarrow> event" where
  "sending_units c =
     Send_message \<lparr>md_content = Str c, md_formatting = None, md_attachment = None,
                   md_replyTo = None\<rparr>"

definition sending :: "string \<Rightarrow> event" where
  "sending c = sending_units (utf16 c)"

definition owner_patch :: "socket_id option \<Rightarrow> settings_patch" where
  "owner_patch v =
     \<lparr>p_allowHistoryForNewUsers = None, p_maxMessageLength = None, p_allowAttachments = None,
      p_allowVoiceChat = None, p_serverName = None, p_ownerId = Some v\<rparr>"

text \<open>
  A connects, joins as alice, sends a message and enters voice room r1; B connects and
  does not join.
\<close>

definition trace_chat :: "input list" where
  "trace_chat =
     [inp ''A'' 1 ''u1'' Connection, inp ''A'' 2 ''u2'' (joining ''alice''),
      inp ''A'' 3 ''u3'' (sending ''Hello''), inp ''A'' 4 ''u4'' (Join_voice ''r1''),
      inp ''B'' 5 ''u5'' Connection]"

definition state_chat :: state where
  "state_chat = run initial_state trace_chat"





text \<open>A, B and C connect and join in this order.\<close>

definition trace_three :: "input list" where
  "trace_three =
     [inp ''A'' 1 ''u1'' Connection, inp ''A'' 2 ''u2'' (joining ''alice''),
      inp ''B'' 3 ''u3'' Connection, inp ''B'' 4 ''u4'' (joining ''bob''),
      inp ''C'' 5 ''u5'' Connection, inp ''C'' 6 ''u6'' (joining ''carol'')]"

definition state_three :: state where
  "state_three = run initial_state trace_three"

text \<open>Then B sends \<open>user_join\<close> a second time.\<close>

definition trace_rejoin :: "input list" where
  "trace_rejoin = trace_three @ [inp ''B'' 7 ''u7'' (joining ''bob'')]"

definition state_rejoin :: state where
  "state_rejoin = run initial_state trace_rejoin"



text \<open>After \<open>trace_chat\<close>, B joins and enters room r1, and A leaves the room.\<close>

definition trace_voice :: "input list" where
  "trace_voice =
     trace_chat @
     [inp ''B'' 6 ''u6'' (joining ''bob''), inp ''B'' 7 ''u7'' (Join_voice ''r1''),
      inp ''A'' 8 ''u8'' (Leave_voice ''r1'')]"

text \<open>
  The sockets connected after a deliverable trace, and what links the log to them: every
  author of a logged message once connected, and an author who is still connected is
  still registered.
\<close>

fun connected :: "socket_id list \<Rightarrow> input list \<Rightarrow> socket_id list" where
  "connected conn [] = conn"
| "connected conn (x # xs) =
     (case ev x of
        Connection \<Rightarrow> connected (sock x # conn) xs
      | Disconnect \<Rightarrow> connected (removeAll (sock x) conn) xs
      | _ \<Rightarrow> connected conn xs)"

definition authors :: "state \<Rightarrow> socket_id set" where
  "authors s = {a. \<exists>m\<in>set (messages s). m_userId m = Some a}"

definition authors_tracked :: "socket_id list \<Rightarrow> socket_id list \<Rightarrow> state \<Rightarrow> bool" where
  "authors_tracked conn used s =
     (set conn \<subseteq> set used \<and> fst ` set (users s) \<subseteq> set conn \<and> authors s \<subseteq> set used \<and>
      authors s \<inter> set conn \<subseteq> fst ` set (users s))"

section \<open>Evaluation of the example runs\<close>

lemmas eval_defs =
  inp_def joining_def sending_def sending_units_def utf16_def owner_patch_def handle_def
  on_connection_def on_missing_payload_def
  on_user_join_def on_change_username_def on_change_bubble_color_def on_send_message_def
  on_edit_message_def on_delete_message_def on_add_reaction_def on_join_voice_def
  on_leave_voice_def merge_settings_def on_update_server_settings_def on_search_messages_def
  on_webrtc_offer_def on_webrtc_answer_def on_webrtc_ice_candidate_def on_disconnect_def
  initial_state_def initial_settings_def sanitizeInput_def trim_def isSpace_def
  system_message_def voice_room_def set_add_def set_delete_def splice1_def Let_def

lemma state_chat_eq:
  "state_chat =
     \<lparr>serverSettings = initial_settings\<lparr>ownerId := Some ''A''\<rparr>,
      messages =
        [system_message ''u2'' (utf16 ''alice joined the chat'') 2,
         \<lparr>m_id = ''u3'', m_type = UserMsg, m_content = utf16 ''Hello'',
          m_username = utf16 ''alice'',
          m_userId = Some ''A'', m_bubbleColor = Some (utf16 ''#007bff''), m_timestamp = 3,
          m_formatting = None, m_attachment = None, m_replyTo = None, m_reactions = Some [],
          m_edited = False, m_editedAt = None\<rparr>],
      users =
        [(''A'', \<lparr>u_id = ''A'', u_username = utf16 ''alice'',
                  u_bubbleColor = utf16 ''#007bff'',
                  isOwner = True, joinTime = 2\<rparr>)],
      voiceRooms = [(''r1'', [''A''])]\<rparr>"
  by (simp add: state_chat_def trace_chat_def eval_defs url_start_def)

lemma deliverable_trace_chat: "deliverable [] [] trace_chat"
  by (simp add: trace_chat_def eval_defs)

section \<open>Deleting a message\<close>

lemma findIndex_None: "findIndex P xs = None \<longleftrightarrow> (\<forall>x\<in>set xs. \<not> P x)"
  by (induction xs) (auto split: option.splits)

lemma findIndex_Some: "findIndex P xs = Some i \<Longrightarrow> i < length xs \<and> P (xs ! i)"
  by (induction xs arbitrary: i) (auto split: option.splits if_splits)

lemma findIndex_member: "findIndex P xs = Some i \<Longrightarrow> xs ! i \<in> set xs"
  using findIndex_Some [of P xs i] by simp

lemma findIndex_splice1:
  "distinct (map f xs) \<Longrightarrow> findIndex (\<lambda>x. f x = k) xs = Some i \<Longrightarrow>
   splice1 i xs = filter (\<lambda>x. f x \<noteq> k) xs"
proof (induction xs arbitrary: i)
  case Nil
  then show ?case by simp
next
  case (Cons x xs)
  show ?case
  proof (cases "f x = k")
    case True
    with Cons.prems have "i = 0" by simp
    moreover from True Cons.prems have "\<forall>y\<in>set xs. f y \<noteq> k" by (auto simp: image_iff)
    ultimately show ?thesis using True by (simp add: splice1_def)
  next
    case False
    with Cons.prems obtain j where j: "findIndex (\<lambda>x. f x = k) xs = Some j" "i = Suc j"
      by (auto split: option.splits)
    with Cons.IH [of j] Cons.prems have "splice1 j xs = filter (\<lambda>x. f x \<noteq> k) xs" by simp
    with False j show ?thesis by (simp add: splice1_def)
  qed
qed

lemma distinct_key_unique:
  "distinct (map f xs) \<Longrightarrow> x \<in> set xs \<Longrightarrow> y \<in> set xs \<Longrightarrow> f x = f y \<Longrightarrow> x = y"
  by (meson distinct_map inj_onD)

lemma on_delete_message_eq:
  assumes d: "distinct (map m_id (messages s))"
  shows "on_delete_message s sid k =
     (if may_delete s sid k
      then (s\<lparr>messages := filter (\<lambda>m. m_id m \<noteq> k) (messages s)\<rparr>,
            [Emit To_all (Message_deleted k)])
      else (s, []))"
proof (cases "findIndex (\<lambda>msg. m_id msg = k) (messages s)")
  case None
  then have "\<not> may_delete s sid k" by (auto simp: findIndex_None may_delete_def)
  with None show ?thesis by (simp add: on_delete_message_def)
next
  case (Some i)
  let ?m = "messages s ! i"
  from Some have mi: "?m \<in> set (messages s)" "m_id ?m = k"
    using findIndex_Some [of _ "messages s" i] by auto
  have uniq: "\<And>m. m \<in> set (messages s) \<Longrightarrow> m_id m = k \<Longrightarrow> m = ?m"
    using distinct_key_unique [OF d _ mi(1)] mi(2) by simp
  have "may_delete s sid k \<longleftrightarrow>
        (m_userId ?m = Some sid \<or> (\<exists>u. map_of (users s) sid = Some u \<and> isOwner u))"
    unfolding may_delete_def using mi uniq by blast
  moreover have "splice1 i (messages s) = filter (\<lambda>m. m_id m \<noteq> k) (messages s)"
    using findIndex_splice1 [OF d Some] .
  ultimately show ?thesis using Some
    by (auto simp: on_delete_message_def split: option.splits)
qed

lemma on_delete_message_absent:
  "\<forall>m\<in>set (messages s). m_id m \<noteq> k \<Longrightarrow> on_delete_message s sid k = (s, [])"
  using findIndex_None [of "\<lambda>msg. m_id msg = k" "messages s"]
  by (simp add: on_delete_message_def)

text \<open>
  Claim C4. In a log whose message ids are distinct, \<open>delete_message\<close> removes the message
  with the given id and broadcasts \<open>message_deleted\<close> exactly when the message exists and
  the actor authored it or is flagged as owner; otherwise nothing changes and nothing is
  sent. A second \<open>delete_message\<close> of the same id by the same actor, and after a deletion
  by any actor, changes nothing and sends nothing.
\<close>

theorem delete_message_iff_and_idempotent:
  assumes "distinct (map m_id (messages s))"
  shows "handle s \<lparr>sock = sid, now = t, uuid = i, ev = Delete_message k\<rparr> =
           (if may_delete s sid k
            then (s\<lparr>messages := filter (\<lambda>m. m_id m \<noteq> k) (messages s)\<rparr>,
                  [Emit To_all (Message_deleted k)])
            else (s, [])) \<and>
         (let s1 = fst (handle s \<lparr>sock = sid, now = t, uuid = i, ev = Delete_message k\<rparr>)
          in handle s1 \<lparr>sock = sid, now = t', uuid = i', ev = Delete_message k\<rparr> = (s1, []) \<and>
             (may_delete s sid k \<longrightarrow>
                handle s1 \<lparr>sock = sid', now = t', uuid = i', ev = Delete_message k\<rparr> =
                  (s1, [])))"
proof -
  have eq: "on_delete_message s sid k =
     (if may_delete s sid k
      then (s\<lparr>messages := filter (\<lambda>m. m_id m \<noteq> k) (messages s)\<rparr>,
            [Emit To_all (Message_deleted k)])
      else (s, []))"
    using on_delete_message_eq [OF assms] .
  show ?thesis
  proof (cases "may_delete s sid k")
    case True
    have "\<And>a. on_delete_message (s\<lparr>messages := filter (\<lambda>m. m_id m \<noteq> k) (messages s)\<rparr>) a k =
            (s\<lparr>messages := filter (\<lambda>m. m_id m \<noteq> k) (messages s)\<rparr>, [])"
      by (rule on_delete_message_absent) simp
    with True eq show ?thesis by (simp add: handle_def)
  next
    case False
    with eq show ?thesis by (simp add: handle_def)
  qed
qed

theorem delete_message_witness:
  "distinct (map m_id (messages state_chat)) \<and> may_delete state_chat ''A'' ''u3'' \<and>
   \<not> may_delete state_chat ''B'' ''u3'' \<and>
   handle state_chat (inp ''B'' 6 ''u6'' (Delete_message ''u3'')) = (state_chat, []) \<and>
   handle state_chat (inp ''A'' 6 ''u6'' (Delete_message ''u3'')) =
     (state_chat\<lparr>messages := [system_message ''u2'' (utf16 ''alice joined the chat'') 2]\<rparr>,
      [Emit To_all (Message_deleted ''u3'')]) \<and>
   handle (state_chat\<lparr>messages := [system_message ''u2'' (utf16 ''alice joined the chat'') 2]\<rparr>)
     (inp ''A'' 7 ''u7'' (Delete_message ''u3'')) =
     (state_chat\<lparr>messages := [system_message ''u2'' (utf16 ''alice joined the chat'') 2]\<rparr>, [])"
proof -
  have d: "distinct (map m_id (messages state_chat))"
    by (simp add: state_chat_eq system_message_def)
  have a: "may_delete state_chat ''A'' ''u3''"
    by (simp add: may_delete_def state_chat_eq system_message_def)
  have b: "\<not> may_delete state_chat ''B'' ''u3''"
    by (simp add: may_delete_def state_chat_eq system_message_def)
  have f: "filter (\<lambda>m. m_id m \<noteq> ''u3'') (messages state_chat) =
           [system_message ''u2'' (utf16 ''alice joined the chat'') 2]"
    by (simp add: state_chat_eq system_message_def)
  note A = delete_message_iff_and_idempotent
    [OF d, of "''A''" 6 "''u6''" "''u3''" 7 "''u7''" "''A''"]
  note B = delete_message_iff_and_idempotent
    [OF d, of "''B''" 6 "''u6''" "''u3''" 7 "''u7''" "''A''"]
  from A a f have 1:
    "handle state_chat \<lparr>sock = ''A'', now = 6, uuid = ''u6'', ev = Delete_message ''u3''\<rparr> =
       (state_chat\<lparr>messages := [system_message ''u2'' (utf16 ''alice joined the chat'') 2]\<rparr>,
        [Emit To_all (Message_deleted ''u3'')])"
    by simp
  from A 1 have 2:
    "handle (state_chat\<lparr>messages := [system_message ''u2'' (utf16 ''alice joined the chat'') 2]\<rparr>)
       \<lparr>sock = ''A'', now = 7, uuid = ''u7'', ev = Delete_message ''u3''\<rparr> =
       (state_chat\<lparr>messages := [system_message ''u2'' (utf16 ''alice joined the chat'') 2]\<rparr>, [])"
    by (simp add: Let_def)
  from B b have 3:
    "handle state_chat \<lparr>sock = ''B'', now = 6, uuid = ''u6'', ev = Delete_message ''u3''\<rparr> =
       (state_chat, [])"
    by simp
  from d a b 1 2 3 show ?thesis by (simp add: inp_def)
qed

section \<open>Searching the log\<close>

lemmas text_defs =
  toLowerCase_def final_sigma_def case_ignorable_def cased_def lower_unit_def

lemma str_includes_iff: "str_includes t q \<longleftrightarrow> contains_text t q"
proof (induction t)
  case Nil
  then show ?case by (simp add: contains_text_def)
next
  case (Cons c cs)
  have "(\<exists>pre post. c # cs = pre @ q @ post) \<longleftrightarrow>
        prefix q (c # cs) \<or> (\<exists>pre post. cs = pre @ q @ post)"
    using sublist_Cons_right [of q c cs] by (simp add: sublist_def)
  with Cons show ?case by (simp add: contains_text_def)
qed


lemma on_search_messages_eq:
  "on_search_messages s sid query =
     (s, [Emit To_sender (Search_results
            (filter (\<lambda>m. contains_text (toLowerCase (m_content m))
                            (toLowerCase (sanitizeInput query)) \<or>
                          contains_text (toLowerCase (m_username m))
                            (toLowerCase (sanitizeInput query)))
               (messages s)))])"
  by (simp add: on_search_messages_def Let_def str_includes_iff)














section \<open>Sending a message\<close>

text \<open>
  Claim C9. A \<open>send_message\<close> whose content sanitizes to the empty string and that has no
  attachment changes nothing and sends nothing, whoever the sender is.
\<close>

theorem empty_message_discarded:
  "sanitizeInput (md_content d) = [] \<Longrightarrow> md_attachment d = None \<Longrightarrow>
   handle s \<lparr>sock = sid, now = t, uuid = i, ev = Send_message d\<rparr> = (s, [])"
  by (simp add: handle_def on_send_message_def split: option.splits)

theorem empty_message_discarded_witness:
  "map_of (users state_chat) ''A'' \<noteq> None \<and>
   sanitizeInput (Str (utf16 '' <> '')) = [] \<and>
   handle state_chat (inp ''A'' 6 ''u6'' (sending '' <> '')) = (state_chat, [])"
proof -
  have r: "map_of (users state_chat) ''A'' \<noteq> None"
    by (simp add: state_chat_eq)
  have e: "sanitizeInput (md_content \<lparr>md_content = Str (utf16 '' <> ''), md_formatting = None,
             md_attachment = None, md_replyTo = None\<rparr>) = []"
    by (simp add: sanitizeInput_def trim_def isSpace_def utf16_def)
  have n: "md_attachment \<lparr>md_content = Str (utf16 '' <> ''), md_formatting = None,
             md_attachment = None, md_replyTo = None\<rparr> = None"
    by simp
  from empty_message_discarded [OF e n, of state_chat "''A''" 6 "''u6''"] r e
  show ?thesis by (simp add: inp_def sending_def sending_units_def)
qed

text \<open>A message with content is appended and broadcast.\<close>

lemma message_sent:
  "handle state_chat (inp ''A'' 6 ''u6'' (sending ''x'')) \<noteq> (state_chat, [])"
  by (simp add: state_chat_eq eval_defs)

section \<open>Updating the server settings\<close>

text \<open>
  Claim C8. When a user flagged as owner sends \<open>update_server_settings\<close> with a patch that
  has an \<open>ownerId\<close> field, the stored settings become the shallow merge, their
  \<open>ownerId\<close> is the patch's value whatever it is, and the \<open>users\<close> map, with every
  \<open>isOwner\<close> flag, stays as it was.
\<close>

theorem owner_patch_replaces_ownerId:
  "map_of (users s) sid = Some usr \<Longrightarrow> isOwner usr \<Longrightarrow> p_ownerId p = Some v \<Longrightarrow>
   handle s \<lparr>sock = sid, now = t, uuid = i, ev = Update_server_settings p\<rparr> =
     (s\<lparr>serverSettings := merge_settings (serverSettings s) p\<rparr>,
      [Emit To_all (Server_settings (merge_settings (serverSettings s) p))]) \<and>
   ownerId (merge_settings (serverSettings s) p) = v \<and>
   users (fst (handle s \<lparr>sock = sid, now = t, uuid = i, ev = Update_server_settings p\<rparr>)) =
     users s"
proof -
  assume a: "map_of (users s) sid = Some usr" "isOwner usr" "p_ownerId p = Some v"
  have "ownerId (merge_settings (serverSettings s) p) = v"
    using a(3) by (simp add: merge_settings_def)
  moreover have "on_update_server_settings s sid p =
     (s\<lparr>serverSettings := merge_settings (serverSettings s) p\<rparr>,
      [Emit To_all (Server_settings (merge_settings (serverSettings s) p))])"
    using a(1,2) by (simp add: on_update_server_settings_def Let_def)
  ultimately show ?thesis by (simp add: handle_def)
qed

text \<open>The owner A stores the id of a socket that never connected; A keeps its flag.\<close>

theorem owner_patch_witness:
  "map_of (users state_chat) ''A'' = Some (snd (hd (users state_chat))) \<and>
   isOwner (snd (hd (users state_chat))) \<and>
   p_ownerId (owner_patch (Some ''ghost'')) = Some (Some ''ghost'') \<and>
   ownerId (serverSettings (fst (handle state_chat
     (inp ''A'' 6 ''u6'' (Update_server_settings (owner_patch (Some ''ghost''))))))) =
     Some ''ghost'' \<and>
   users (fst (handle state_chat
     (inp ''A'' 6 ''u6'' (Update_server_settings (owner_patch (Some ''ghost'')))))) =
     users state_chat \<and>
   map_of (users state_chat) ''ghost'' = None"
proof -
  have u: "map_of (users state_chat) ''A'' = Some (snd (hd (users state_chat)))"
    by (simp add: state_chat_eq)
  have o: "isOwner (snd (hd (users state_chat)))"
    by (simp add: state_chat_eq)
  have p: "p_ownerId (owner_patch (Some ''ghost'')) = Some (Some ''ghost'')"
    by (simp add: owner_patch_def)
  have g: "map_of (users state_chat) ''ghost'' = None"
    by (simp add: state_chat_eq)
  from owner_patch_replaces_ownerId [OF u o p, of 6 "''u6''"] u o p g
  show ?thesis by (simp add: inp_def)
qed

section \<open>Voice rooms\<close>

lemma set_update_cases:
  "(a, b) \<in> set (AList.update k v al) \<Longrightarrow> (a, b) = (k, v) \<or> (a, b) \<in> set al"
  by (induction al) (auto split: if_splits)

lemma set_delete_subset: "set (AList.delete k al) \<subseteq> set al"
  by (auto simp: AList.delete_eq)

lemma purge_voiceRooms_nonempty:
  "\<forall>(roomId, room)\<in>set rooms. room \<noteq> [] \<Longrightarrow>
   \<forall>(roomId, room)\<in>set (fst (purge_voiceRooms sid rooms)). room \<noteq> []"
  by (induction rooms) (auto split: prod.splits if_splits)

lemma rooms_nonempty_join_voice:
  "rooms_nonempty s \<Longrightarrow> rooms_nonempty (fst (on_join_voice s sid roomId))"
  unfolding rooms_nonempty_def on_join_voice_def Let_def set_add_def
  by (auto split: option.splits if_splits dest!: set_update_cases)

lemma set_delete_cases: "(a, b) \<in> set (AList.delete k al) \<Longrightarrow> a \<noteq> k \<and> (a, b) \<in> set al"
  by (auto simp: AList.delete_eq)

lemma voiceRooms_leave_voice:
  "map_of (voiceRooms s) roomId = Some room \<Longrightarrow>
   voiceRooms (fst (on_leave_voice s sid roomId)) =
     (if set_delete sid room = []
      then AList.delete roomId (AList.update roomId (set_delete sid room) (voiceRooms s))
      else AList.update roomId (set_delete sid room) (voiceRooms s))"
  by (simp add: on_leave_voice_def Let_def)

lemma rooms_nonempty_leave_voice:
  assumes "rooms_nonempty s"
  shows "rooms_nonempty (fst (on_leave_voice s sid roomId))"
proof (cases "map_of (voiceRooms s) roomId")
  case None
  with assms show ?thesis by (simp add: on_leave_voice_def)
next
  case (Some room)
  let ?room1 = "set_delete sid room"
  let ?rooms1 = "AList.update roomId ?room1 (voiceRooms s)"
  have "b \<noteq> []" if "(a, b) \<in> set (voiceRooms (fst (on_leave_voice s sid roomId)))" for a b
  proof (cases "?room1 = []")
    case True
    with that Some have "(a, b) \<in> set (AList.delete roomId ?rooms1)"
      by (simp only: voiceRooms_leave_voice if_True simp_thms)
    then have "a \<noteq> roomId \<and> (a, b) \<in> set ?rooms1"
      by (rule set_delete_cases)
    then have "(a, b) \<in> set (voiceRooms s)"
      using set_update_cases [of a b roomId ?room1 "voiceRooms s"] by simp
    with assms show ?thesis by (auto simp: rooms_nonempty_def)
  next
    case False
    with that Some have "(a, b) \<in> set ?rooms1"
      by (simp only: voiceRooms_leave_voice if_False simp_thms)
    then have "(a, b) = (roomId, ?room1) \<or> (a, b) \<in> set (voiceRooms s)"
      by (rule set_update_cases)
    with False assms show ?thesis by (auto simp: rooms_nonempty_def)
  qed
  then show ?thesis by (auto simp: rooms_nonempty_def)
qed

lemma voiceRooms_disconnect:
  "voiceRooms (fst (on_disconnect s sid t i)) =
     (case map_of (users s) sid of
        None \<Rightarrow> voiceRooms s
      | Some usr \<Rightarrow> fst (purge_voiceRooms sid (voiceRooms s)))"
  by (simp add: on_disconnect_def Let_def split: option.splits prod.splits list.splits)

lemma rooms_nonempty_disconnect:
  assumes "rooms_nonempty s"
  shows "rooms_nonempty (fst (on_disconnect s sid t i))"
proof (cases "map_of (users s) sid")
  case None
  with assms show ?thesis by (simp add: rooms_nonempty_def voiceRooms_disconnect)
next
  case (Some usr)
  with purge_voiceRooms_nonempty [of "voiceRooms s" sid] assms show ?thesis
    by (simp add: rooms_nonempty_def voiceRooms_disconnect)
qed

lemma voiceRooms_unchanged:
  "voiceRooms (fst (on_connection s sid)) = voiceRooms s"
  "voiceRooms (fst (on_user_join s sid t i ud)) = voiceRooms s"
  "voiceRooms (fst (on_change_username s sid t i n)) = voiceRooms s"
  "voiceRooms (fst (on_change_bubble_color s sid c)) = voiceRooms s"
  "voiceRooms (fst (on_send_message s sid t i md)) = voiceRooms s"
  "voiceRooms (fst (on_edit_message s sid t k n)) = voiceRooms s"
  "voiceRooms (fst (on_delete_message s sid k)) = voiceRooms s"
  "voiceRooms (fst (on_add_reaction s sid k e)) = voiceRooms s"
  "voiceRooms (fst (on_update_server_settings s sid p)) = voiceRooms s"
  "voiceRooms (fst (on_search_messages s sid q)) = voiceRooms s"
  "voiceRooms (fst (on_webrtc_offer s sid tg x)) = voiceRooms s"
  "voiceRooms (fst (on_webrtc_answer s sid tg x)) = voiceRooms s"
  "voiceRooms (fst (on_webrtc_ice_candidate s sid tg x)) = voiceRooms s"
  "voiceRooms (fst (on_missing_payload s sid nm)) = voiceRooms s"
  by (simp_all add: on_connection_def on_missing_payload_def on_user_join_def on_change_username_def
      on_change_bubble_color_def on_send_message_def on_edit_message_def on_delete_message_def
      on_add_reaction_def on_update_server_settings_def on_search_messages_def
      on_webrtc_offer_def on_webrtc_answer_def on_webrtc_ice_candidate_def Let_def
      split: option.splits event_name.splits)

lemma rooms_nonempty_handle: "rooms_nonempty s \<Longrightarrow> rooms_nonempty (fst (handle s x))"
proof (cases "ev x")
  case (Join_voice r)
  then show "rooms_nonempty s \<Longrightarrow> ?thesis"
    by (simp add: handle_def rooms_nonempty_join_voice)
next
  case (Leave_voice r)
  then show "rooms_nonempty s \<Longrightarrow> ?thesis"
    by (simp add: handle_def rooms_nonempty_leave_voice)
next
  case Disconnect
  then show "rooms_nonempty s \<Longrightarrow> ?thesis"
    by (simp add: handle_def rooms_nonempty_disconnect)
qed (simp_all add: handle_def rooms_nonempty_def voiceRooms_unchanged)

lemma rooms_nonempty_run: "rooms_nonempty s \<Longrightarrow> rooms_nonempty (run s xs)"
  by (induction xs arbitrary: s) (simp_all add: rooms_nonempty_handle)

lemma rooms_nonempty_initial: "rooms_nonempty initial_state"
  by (simp add: rooms_nonempty_def initial_state_def)

text \<open>
  Claim C7. In every state that a sequence of events reaches from the initial state, every
  entry of \<open>voiceRooms\<close> has a member; and every event, \<open>join_voice\<close>, \<open>leave_voice\<close> and
  \<open>disconnect\<close> among them, keeps this property.
\<close>

theorem voice_rooms_never_empty:
  "(\<forall>(roomId, room)\<in>set (voiceRooms (run initial_state xs)). room \<noteq> []) \<and>
   (rooms_nonempty s \<longrightarrow>
      rooms_nonempty (fst (handle s \<lparr>sock = sid, now = t, uuid = i, ev = Join_voice r\<rparr>)) \<and>
      rooms_nonempty (fst (handle s \<lparr>sock = sid, now = t, uuid = i, ev = Leave_voice r\<rparr>)) \<and>
      rooms_nonempty (fst (handle s \<lparr>sock = sid, now = t, uuid = i, ev = Disconnect\<rparr>)))"
  using rooms_nonempty_run [OF rooms_nonempty_initial, of xs] rooms_nonempty_handle [of s]
  by (simp add: rooms_nonempty_def)

lemma state_voice_eq:
  "voiceRooms (run initial_state trace_voice) = [(''r1'', [''B''])]"
  by (simp add: trace_voice_def trace_chat_def eval_defs)

theorem voice_rooms_witness:
  "voiceRooms (run initial_state trace_voice) = [(''r1'', [''B''])] \<and>
   rooms_nonempty (run initial_state trace_voice) \<and>
   voiceRooms (fst (handle (run initial_state trace_voice)
     \<lparr>sock = ''A'', now = 9, uuid = ''u9'', ev = Join_voice ''r2''\<rparr>)) =
     [(''r1'', [''B'']), (''r2'', [''A''])] \<and>
   voiceRooms (fst (handle (run initial_state trace_voice)
     \<lparr>sock = ''B'', now = 9, uuid = ''u9'', ev = Leave_voice ''r1''\<rparr>)) = [] \<and>
   voiceRooms (fst (handle (run initial_state trace_voice)
     \<lparr>sock = ''B'', now = 9, uuid = ''u9'', ev = Disconnect\<rparr>)) = []"
proof -
  note w = voice_rooms_never_empty [of trace_voice "run initial_state trace_voice"]
  from w have r: "rooms_nonempty (run initial_state trace_voice)"
    by (simp add: rooms_nonempty_def)
  have "voiceRooms (fst (handle (run initial_state trace_voice)
     \<lparr>sock = ''A'', now = 9, uuid = ''u9'', ev = Join_voice ''r2''\<rparr>)) =
     [(''r1'', [''B'']), (''r2'', [''A''])]"
    by (simp add: trace_voice_def trace_chat_def eval_defs)
  moreover have "voiceRooms (fst (handle (run initial_state trace_voice)
     \<lparr>sock = ''B'', now = 9, uuid = ''u9'', ev = Leave_voice ''r1''\<rparr>)) = []"
    by (simp add: trace_voice_def trace_chat_def eval_defs)
  moreover have "voiceRooms (fst (handle (run initial_state trace_voice)
     \<lparr>sock = ''B'', now = 9, uuid = ''u9'', ev = Disconnect\<rparr>)) = []"
    by (simp add: trace_voice_def trace_chat_def eval_defs)
  ultimately show ?thesis using r state_voice_eq by simp
qed

lemma leave_voice_nonmember:
  assumes "map_of (voiceRooms s) roomId = Some room" "room \<noteq> []" "sid \<notin> set room"
  shows "on_leave_voice s sid roomId =
           (s, [Socket_leave (voice_room roomId),
                Emit (To_room (voice_room roomId)) (Voice_user_left sid)])"
proof -
  from assms(3) have "set_delete sid room = room" by (simp add: set_delete_def)
  moreover from assms(1) have "AList.update roomId room (voiceRooms s) = voiceRooms s"
    by (rule AList.update_triv)
  ultimately show ?thesis using assms(1,2) by (simp add: on_leave_voice_def)
qed

text \<open>
  Claim C10. In a reachable state, \<open>leave_voice\<close> for an existing room by a socket that is
  not a member of the room leaves the state, and so the room's member set, as it was, and
  announces \<open>voice_user_left\<close> with the caller's id to the room.
\<close>

theorem leave_voice_by_nonmember:
  assumes "map_of (voiceRooms (run initial_state xs)) roomId = Some room" "sid \<notin> set room"
  shows "handle (run initial_state xs) \<lparr>sock = sid, now = t, uuid = i, ev = Leave_voice roomId\<rparr> =
           (run initial_state xs,
            [Socket_leave (voice_room roomId),
             Emit (To_room (voice_room roomId)) (Voice_user_left sid)])"
proof -
  have "rooms_nonempty (run initial_state xs)"
    by (rule rooms_nonempty_run [OF rooms_nonempty_initial])
  moreover from assms(1) have "(roomId, room) \<in> set (voiceRooms (run initial_state xs))"
    by (rule map_of_SomeD)
  ultimately have "room \<noteq> []" by (auto simp: rooms_nonempty_def)
  with assms show ?thesis by (simp add: handle_def leave_voice_nonmember)
qed

theorem leave_voice_by_nonmember_witness:
  "map_of (voiceRooms (run initial_state trace_chat)) ''r1'' = Some [''A''] \<and>
   ''B'' \<notin> set [''A''] \<and>
   handle (run initial_state trace_chat) (inp ''B'' 6 ''u6'' (Leave_voice ''r1'')) =
     (run initial_state trace_chat,
      [Socket_leave ''voice_r1'', Emit (To_room ''voice_r1'') (Voice_user_left ''B'')])"
proof -
  have m: "map_of (voiceRooms (run initial_state trace_chat)) ''r1'' = Some [''A'']"
    by (simp add: state_chat_eq [unfolded state_chat_def])
  have n: "''B'' \<notin> set [''A'']" by simp
  from leave_voice_by_nonmember [OF m n, of 6 "''u6''"] m n
  show ?thesis by (simp add: inp_def voice_room_def)
qed

section \<open>Reactions\<close>

lemma findIndex_list_update:
  "findIndex P xs = Some i \<Longrightarrow> P y \<Longrightarrow> findIndex P (xs[i := y]) = Some i"
proof (induction xs arbitrary: i)
  case Nil
  then show ?case by simp
next
  case (Cons x xs)
  show ?case
  proof (cases "P x")
    case True
    with Cons.prems show ?thesis by simp
  next
    case False
    with Cons.prems obtain j where "findIndex P xs = Some j" "i = Suc j"
      by (auto split: option.splits)
    with Cons.IH [of j] Cons.prems(2) False show ?thesis by simp
  qed
qed

lemma count_list_distinct: "distinct xs \<Longrightarrow> x \<in> set xs \<Longrightarrow> count_list xs x = 1"
  by (induction xs) (auto simp: count_list_0_iff)

lemma reaction_users_member:
  assumes "u \<in> set (reaction_users m emoji)"
  shows "m_reactions m = Some (reactions_of m) \<and>
         map_of (reactions_of m) emoji = Some (reaction_users m emoji)"
proof (cases "map_of (reactions_of m) emoji")
  case None
  with assms show ?thesis by (simp add: reaction_users_def)
next
  case (Some us)
  then have "map_of (reactions_of m) emoji = Some (reaction_users m emoji)"
    by (simp add: reaction_users_def)
  moreover from Some have "reactions_of m \<noteq> []" by auto
  then have "m_reactions m = Some (reactions_of m)"
    by (cases "m_reactions m") (simp_all add: reactions_of_def)
  ultimately show ?thesis by simp
qed

lemma reaction_users_distinct: "reactions_ok m \<Longrightarrow> distinct (reaction_users m emoji)"
proof (cases "map_of (reactions_of m) emoji")
  case None
  then show ?thesis by (simp add: reaction_users_def)
next
  case (Some us)
  then have "(emoji, us) \<in> set (reactions_of m)" by (rule map_of_SomeD)
  moreover assume "reactions_ok m"
  ultimately have "distinct us" by (auto simp: reactions_ok_def)
  with Some show ?thesis by (simp add: reaction_users_def)
qed

text \<open>The handler on a message that exists, for a registered user.\<close>

lemma on_add_reaction_registered:
  assumes f: "findIndex (\<lambda>msg. m_id msg = k) (messages s) = Some idx"
    and u: "map_of (users s) sid = Some usr"
  shows "on_add_reaction s sid k emoji =
     (if u_username usr \<in> set (reaction_users (messages s ! idx) emoji) then (s, [])
      else (s\<lparr>messages := (messages s)
              [idx := (messages s ! idx)\<lparr>m_reactions :=
                 Some (AList.update emoji
                        (reaction_users (messages s ! idx) emoji @ [u_username usr])
                        (reactions_of (messages s ! idx)))\<rparr>]\<rparr>,
            [Emit To_all (Reaction_added k emoji
               (reaction_users (messages s ! idx) emoji @ [u_username usr]))]))"
proof (cases "u_username usr \<in> set (reaction_users (messages s ! idx) emoji)")
  case True
  let ?m = "messages s ! idx"
  from reaction_users_member [OF True]
  have r: "m_reactions ?m = Some (reactions_of ?m)"
    and e: "map_of (reactions_of ?m) emoji = Some (reaction_users ?m emoji)"
    by simp_all
  from r have "?m\<lparr>m_reactions := Some (reactions_of ?m)\<rparr> = ?m" by simp
  then have "(messages s)[idx := ?m\<lparr>m_reactions := Some (reactions_of ?m)\<rparr>] = messages s"
    by simp
  then have "s\<lparr>messages := (messages s)[idx := ?m\<lparr>m_reactions := Some (reactions_of ?m)\<rparr>]\<rparr> = s"
    by simp
  with True f u e show ?thesis
    unfolding on_add_reaction_def Let_def
    by (simp add: reactions_of_def [symmetric])
next
  case False
  let ?m = "messages s ! idx"
  show ?thesis
  proof (cases "map_of (reactions_of ?m) emoji")
    case None
    then have "reaction_users ?m emoji = []" by (simp add: reaction_users_def)
    with False f u None show ?thesis
      unfolding on_add_reaction_def Let_def
      by (simp add: reactions_of_def [symmetric] AList.update_conv')
  next
    case (Some us)
    then have "reaction_users ?m emoji = us" by (simp add: reaction_users_def)
    with False f u Some show ?thesis
      unfolding on_add_reaction_def Let_def
      by (simp add: reactions_of_def [symmetric])
  qed
qed

lemma reactions_ok_added:
  assumes "reactions_ok m" "name \<notin> set (reaction_users m emoji)"
  shows "reactions_ok (m\<lparr>m_reactions :=
           Some (AList.update emoji (reaction_users m emoji @ [name]) (reactions_of m))\<rparr>)"
proof -
  have "distinct us"
    if "(e, us) \<in> set (AList.update emoji (reaction_users m emoji @ [name]) (reactions_of m))"
    for e us
  proof -
    from that have "(e, us) = (emoji, reaction_users m emoji @ [name]) \<or>
                    (e, us) \<in> set (reactions_of m)"
      by (rule set_update_cases)
    then show ?thesis
    proof
      assume "(e, us) = (emoji, reaction_users m emoji @ [name])"
      with assms reaction_users_distinct [of m emoji] show ?thesis by simp
    next
      assume "(e, us) \<in> set (reactions_of m)"
      with assms(1) show ?thesis by (auto simp: reactions_ok_def)
    qed
  qed
  then show ?thesis by (auto simp: reactions_ok_def reactions_of_def)
qed

lemma reactions_distinct_list_update:
  "reactions_distinct s \<Longrightarrow> reactions_ok m \<Longrightarrow>
   reactions_distinct (s\<lparr>messages := (messages s)[idx := m]\<rparr>)"
  using set_update_subset_insert [of "messages s" idx m]
  by (auto simp: reactions_distinct_def)

lemma reactions_distinct_append:
  "reactions_distinct s \<Longrightarrow> reactions_ok m \<Longrightarrow>
   reactions_distinct (s\<lparr>messages := messages s @ [m]\<rparr>)"
  by (auto simp: reactions_distinct_def)

lemma reactions_ok_system_message: "reactions_ok (system_message i c t)"
  by (simp add: reactions_ok_def reactions_of_def system_message_def)

lemma reactions_distinct_add_reaction:
  assumes "reactions_distinct s"
  shows "reactions_distinct (fst (on_add_reaction s sid k emoji))"
proof (cases "findIndex (\<lambda>msg. m_id msg = k) (messages s)")
  case None
  with assms show ?thesis by (simp add: on_add_reaction_def)
next
  case (Some idx)
  show ?thesis
  proof (cases "map_of (users s) sid")
    case None
    with Some assms show ?thesis by (simp add: on_add_reaction_def)
  next
    case (Some usr)
    from \<open>findIndex _ _ = Some idx\<close> have "messages s ! idx \<in> set (messages s)"
      by (rule findIndex_member)
    with assms have ok: "reactions_ok (messages s ! idx)"
      by (simp add: reactions_distinct_def)
    show ?thesis
    proof (cases "u_username usr \<in> set (reaction_users (messages s ! idx) emoji)")
      case True
      with on_add_reaction_registered [OF \<open>findIndex _ _ = Some idx\<close> Some, of emoji] assms
      show ?thesis by simp
    next
      case False
      with on_add_reaction_registered [OF \<open>findIndex _ _ = Some idx\<close> Some, of emoji]
        reactions_distinct_list_update [OF assms reactions_ok_added [OF ok False]]
      show ?thesis by simp
    qed
  qed
qed

lemma reactions_distinct_edit_message:
  assumes "reactions_distinct s"
  shows "reactions_distinct (fst (on_edit_message s sid t k n))"
proof (cases "findIndex (\<lambda>msg. m_id msg = k) (messages s)")
  case None
  with assms show ?thesis by (simp add: on_edit_message_def)
next
  case (Some idx)
  then have "messages s ! idx \<in> set (messages s)" by (rule findIndex_member)
  with assms have "reactions_ok (messages s ! idx)" by (simp add: reactions_distinct_def)
  then have "reactions_ok ((messages s ! idx)\<lparr>m_content := c, m_edited := True,
               m_editedAt := Some t\<rparr>)" for c
    by (simp add: reactions_ok_def reactions_of_def)
  with Some assms show ?thesis
    by (simp add: on_edit_message_def Let_def reactions_distinct_list_update)
qed

lemma reactions_distinct_delete_message:
  assumes "reactions_distinct s"
  shows "reactions_distinct (fst (on_delete_message s sid k))"
proof -
  have "set (splice1 idx (messages s)) \<subseteq> set (messages s)" for idx
    using set_take_subset [of idx "messages s"] set_drop_subset [of "Suc idx" "messages s"]
    by (auto simp: splice1_def)
  with assms have "reactions_distinct (s\<lparr>messages := splice1 idx (messages s)\<rparr>)" for idx
    by (auto simp: reactions_distinct_def)
  with assms show ?thesis
    by (simp add: on_delete_message_def split: option.splits)
qed

lemma messages_disconnect:
  "messages (fst (on_disconnect s sid t i)) =
     (case map_of (users s) sid of
        None \<Rightarrow> messages s
      | Some usr \<Rightarrow> messages s @ [system_message i (u_username usr @ utf16 '' left the chat'') t])"
  by (simp add: on_disconnect_def Let_def split: option.splits prod.splits list.splits)

lemma reactions_distinct_messages:
  "reactions_distinct s \<Longrightarrow> messages s' = messages s \<Longrightarrow> reactions_distinct s'"
  by (simp add: reactions_distinct_def)

lemma reactions_distinct_messages_append:
  "reactions_distinct s \<Longrightarrow> messages s' = messages s @ [m] \<Longrightarrow> reactions_ok m \<Longrightarrow>
   reactions_distinct s'"
  by (auto simp: reactions_distinct_def)

lemma reactions_distinct_handle:
  assumes "reactions_distinct s"
  shows "reactions_distinct (fst (handle s x))"
proof (cases "ev x")
  case Connection
  with assms show ?thesis
    by (auto simp: handle_def on_connection_def Let_def intro: reactions_distinct_messages)
next
  case (User_join d)
  have "reactions_distinct (fst (on_user_join s a t i d))" for a t i
    by (rule reactions_distinct_messages_append [OF assms _ reactions_ok_system_message])
      (simp add: on_user_join_def Let_def)
  with User_join show ?thesis by (simp add: handle_def)
next
  case (Change_username n)
  have "reactions_distinct (fst (on_change_username s a t i n))" for a t i
  proof (cases "map_of (users s) a")
    case None
    with assms show ?thesis by (simp add: on_change_username_def)
  next
    case (Some usr)
    show ?thesis
      by (rule reactions_distinct_messages_append [OF assms _ reactions_ok_system_message])
        (simp add: on_change_username_def Let_def Some)
  qed
  with Change_username show ?thesis by (simp add: handle_def)
next
  case (Change_bubble_color c)
  have "messages (fst (on_change_bubble_color s a c)) = messages s" for a
    by (simp add: on_change_bubble_color_def Let_def split: option.splits)
  with Change_bubble_color assms show ?thesis
    by (simp add: handle_def reactions_distinct_messages [OF assms])
next
  case (Send_message d)
  have "reactions_distinct (fst (on_send_message s a t i d))" for a t i
  proof (cases "map_of (users s) a")
    case None
    with assms show ?thesis by (simp add: on_send_message_def)
  next
    case (Some usr)
    show ?thesis
    proof (cases "sanitizeInput (md_content d) = [] \<and> md_attachment d = None")
      case True
      with Some assms show ?thesis by (simp add: on_send_message_def)
    next
      case False
      show ?thesis
        by (rule reactions_distinct_messages_append [OF assms])
          (use False Some in \<open>auto simp: on_send_message_def Let_def reactions_ok_def
            reactions_of_def\<close>)
    qed
  qed
  with Send_message show ?thesis by (simp add: handle_def)
next
  case (Edit_message k n)
  with assms show ?thesis by (simp add: handle_def reactions_distinct_edit_message)
next
  case (Delete_message k)
  with assms show ?thesis by (simp add: handle_def reactions_distinct_delete_message)
next
  case (Add_reaction k e)
  with assms show ?thesis by (simp add: handle_def reactions_distinct_add_reaction)
next
  case (Join_voice r)
  have "messages (fst (on_join_voice s a r)) = messages s" for a
    by (simp add: on_join_voice_def Let_def split: option.splits)
  with Join_voice show ?thesis
    by (simp add: handle_def reactions_distinct_messages [OF assms])
next
  case (Leave_voice r)
  have "messages (fst (on_leave_voice s a r)) = messages s" for a
    by (simp add: on_leave_voice_def Let_def split: option.splits)
  with Leave_voice show ?thesis
    by (simp add: handle_def reactions_distinct_messages [OF assms])
next
  case (Update_server_settings p)
  have "messages (fst (on_update_server_settings s a p)) = messages s" for a
    by (simp add: on_update_server_settings_def Let_def split: option.splits)
  with Update_server_settings show ?thesis
    by (simp add: handle_def reactions_distinct_messages [OF assms])
next
  case (Search_messages q)
  with assms show ?thesis by (simp add: handle_def on_search_messages_def Let_def)
next
  case (Webrtc_offer tg d)
  with assms show ?thesis by (simp add: handle_def on_webrtc_offer_def)
next
  case (Webrtc_answer tg d)
  with assms show ?thesis by (simp add: handle_def on_webrtc_answer_def)
next
  case (Webrtc_ice_candidate tg d)
  with assms show ?thesis by (simp add: handle_def on_webrtc_ice_candidate_def)
next
  case (Missing_payload nm)
  have "fst (on_missing_payload s a nm) = s" for a
    by (simp add: on_missing_payload_def split: option.splits event_name.splits)
  with Missing_payload assms show ?thesis by (simp add: handle_def)
next
  case Disconnect
  have "reactions_distinct (fst (on_disconnect s a t i))" for a t i
  proof (cases "map_of (users s) a")
    case None
    with assms show ?thesis by (simp add: on_disconnect_def)
  next
    case (Some usr)
    show ?thesis
      by (rule reactions_distinct_messages_append [OF assms _ reactions_ok_system_message])
        (simp add: messages_disconnect Some)
  qed
  with Disconnect show ?thesis by (simp add: handle_def)
qed

lemma reactions_distinct_run: "reactions_distinct s \<Longrightarrow> reactions_distinct (run s xs)"
  by (induction xs arbitrary: s) (simp_all add: reactions_distinct_handle)

lemma reactions_distinct_initial: "reactions_distinct initial_state"
  by (simp add: reactions_distinct_def initial_state_def)

text \<open>
  Claim C5. In every reachable state no reaction list has a user name twice. From a state
  with this property, when the message exists and the caller is registered, the same
  \<open>add_reaction\<close> sent twice leaves the caller's user name exactly once in the message's
  list for the emoji: the second call changes nothing and sends nothing.
\<close>

theorem add_reaction_twice:
  "reactions_distinct (run initial_state xs) \<and>
   (reactions_distinct s \<longrightarrow>
    findIndex (\<lambda>msg. m_id msg = k) (messages s) = Some idx \<longrightarrow>
    map_of (users s) sid = Some usr \<longrightarrow>
    (let s1 = fst (handle s \<lparr>sock = sid, now = t, uuid = i, ev = Add_reaction k emoji\<rparr>)
     in handle s1 \<lparr>sock = sid, now = t', uuid = i', ev = Add_reaction k emoji\<rparr> = (s1, []) \<and>
        count_list (reaction_users (messages s1 ! idx) emoji) (u_username usr) = 1 \<and>
        reactions_distinct s1))"
proof -
  have reach: "reactions_distinct (run initial_state xs)"
    by (rule reactions_distinct_run [OF reactions_distinct_initial])
  have step: "on_add_reaction s1 sid k emoji = (s1, []) \<and>
        count_list (reaction_users (messages s1 ! idx) emoji) (u_username usr) = 1 \<and>
        reactions_distinct s1"
    if inv: "reactions_distinct s"
      and f: "findIndex (\<lambda>msg. m_id msg = k) (messages s) = Some idx"
      and u: "map_of (users s) sid = Some usr"
      and s1: "s1 = fst (on_add_reaction s sid k emoji)"
    for s1
  proof -
    let ?m = "messages s ! idx"
    let ?name = "u_username usr"
    from findIndex_Some [OF f] have len: "idx < length (messages s)" and key: "m_id ?m = k"
      by simp_all
    from f have "?m \<in> set (messages s)" by (rule findIndex_member)
    with inv have ok: "reactions_ok ?m" by (simp add: reactions_distinct_def)
    have inv1: "reactions_distinct s1"
      unfolding s1 using inv by (rule reactions_distinct_add_reaction)
    show ?thesis
    proof (cases "?name \<in> set (reaction_users ?m emoji)")
      case True
      with on_add_reaction_registered [OF f u, of emoji] s1 have "s1 = s" by simp
      moreover from True reaction_users_distinct [OF ok, of emoji]
      have "count_list (reaction_users ?m emoji) ?name = 1"
        by (simp add: count_list_distinct)
      moreover from True on_add_reaction_registered [OF f u, of emoji]
      have "on_add_reaction s sid k emoji = (s, [])" by simp
      ultimately show ?thesis using inv by simp
    next
      case False
      let ?us = "reaction_users ?m emoji @ [?name]"
      let ?m1 = "?m\<lparr>m_reactions := Some (AList.update emoji ?us (reactions_of ?m))\<rparr>"
      from False on_add_reaction_registered [OF f u, of emoji] s1
      have eq: "s1 = s\<lparr>messages := (messages s)[idx := ?m1]\<rparr>" by simp
      with len have nth: "messages s1 ! idx = ?m1" by simp
      have ru: "reaction_users ?m1 emoji = ?us"
        by (simp add: reaction_users_def reactions_of_def AList.update_conv')
      from key have "m_id ?m1 = k" by simp
      with f have f1: "findIndex (\<lambda>msg. m_id msg = k) (messages s1) = Some idx"
        unfolding eq by (simp add: findIndex_list_update)
      from u eq have u1: "map_of (users s1) sid = Some usr" by simp
      from ru nth have mem: "?name \<in> set (reaction_users (messages s1 ! idx) emoji)" by simp
      with on_add_reaction_registered [OF f1 u1, of emoji]
      have "on_add_reaction s1 sid k emoji = (s1, [])" by simp
      moreover from reaction_users_distinct [OF ok, of emoji] False
      have "count_list ?us ?name = 1" by (simp add: count_list_0_iff)
      with ru nth have "count_list (reaction_users (messages s1 ! idx) emoji) ?name = 1"
        by simp
      ultimately show ?thesis using inv1 by simp
    qed
  qed
  from reach step show ?thesis by (simp add: handle_def Let_def)
qed

text \<open>A reacts twice with the same emoji to its own message.\<close>

theorem add_reaction_twice_witness:
  "reactions_distinct state_chat \<and>
   findIndex (\<lambda>msg. m_id msg = ''u3'') (messages state_chat) = Some 1 \<and>
   map_of (users state_chat) ''A'' = Some (snd (hd (users state_chat))) \<and>
   u_username (snd (hd (users state_chat))) = utf16 ''alice'' \<and>
   reaction_users (messages state_chat ! 1) (utf16 ''+1'') = [] \<and>
   reaction_users
     (messages (fst (handle state_chat (inp ''A'' 6 ''u6'' (Add_reaction ''u3'' (utf16 ''+1'')))))
      ! 1) (utf16 ''+1'') = [utf16 ''alice''] \<and>
   handle (fst (handle state_chat (inp ''A'' 6 ''u6'' (Add_reaction ''u3'' (utf16 ''+1'')))))
     (inp ''A'' 7 ''u7'' (Add_reaction ''u3'' (utf16 ''+1''))) =
     (fst (handle state_chat (inp ''A'' 6 ''u6'' (Add_reaction ''u3'' (utf16 ''+1'')))), []) \<and>
   count_list
     (reaction_users
        (messages (fst (handle state_chat (inp ''A'' 6 ''u6'' (Add_reaction ''u3'' (utf16 ''+1'')))))
         ! 1) (utf16 ''+1'')) (utf16 ''alice'') = 1"
proof -
  note w = add_reaction_twice [of trace_chat state_chat "''u3''" 1 "''A''"
      "snd (hd (users state_chat))" 6 "''u6''" "(utf16 ''+1'')" 7 "''u7''"]
  from w have r: "reactions_distinct state_chat" by (simp add: state_chat_def)
  have f: "findIndex (\<lambda>msg. m_id msg = ''u3'') (messages state_chat) = Some 1"
    by (simp add: state_chat_eq system_message_def)
  have u: "map_of (users state_chat) ''A'' = Some (snd (hd (users state_chat)))"
    by (simp add: state_chat_eq)
  have n: "u_username (snd (hd (users state_chat))) = utf16 ''alice''"
    by (simp add: state_chat_eq)
  have e: "reaction_users (messages state_chat ! 1) (utf16 ''+1'') = []"
    by (simp add: state_chat_eq reaction_users_def reactions_of_def)
  have a: "reaction_users
     (messages (fst (handle state_chat (inp ''A'' 6 ''u6'' (Add_reaction ''u3'' (utf16 ''+1'')))))
      ! 1) (utf16 ''+1'') = [utf16 ''alice'']"
    by (simp add: state_chat_eq reaction_users_def reactions_of_def system_message_def
        inp_def handle_def on_add_reaction_def Let_def)
  from w r f u n have
    "handle (fst (handle state_chat (inp ''A'' 6 ''u6'' (Add_reaction ''u3'' (utf16 ''+1'')))))
       (inp ''A'' 7 ''u7'' (Add_reaction ''u3'' (utf16 ''+1''))) =
       (fst (handle state_chat (inp ''A'' 6 ''u6'' (Add_reaction ''u3'' (utf16 ''+1'')))), [])"
    "count_list
       (reaction_users
          (messages (fst (handle state_chat (inp ''A'' 6 ''u6'' (Add_reaction ''u3'' (utf16 ''+1'')))))
           ! 1) (utf16 ''+1'')) (utf16 ''alice'') = 1"
    by (simp_all add: inp_def Let_def)
  with r f u n e a show ?thesis by simp
qed

section \<open>Ownership\<close>









text \<open>The \<open>users\<close> map and the settings after a disconnect.\<close>

lemma on_disconnect_users:
  "map_of (users s) sid = Some usr \<Longrightarrow>
   users (fst (on_disconnect s sid t i)) =
     (if isOwner usr
      then (case AList.delete sid (users s) of
              [] \<Rightarrow> []
            | (k, newOwner) # others \<Rightarrow> (k, newOwner\<lparr>isOwner := True\<rparr>) # others)
      else AList.delete sid (users s))"
  by (simp add: on_disconnect_def Let_def split: prod.splits list.splits)

lemma on_disconnect_settings:
  "map_of (users s) sid = Some usr \<Longrightarrow>
   serverSettings (fst (on_disconnect s sid t i)) =
     (if isOwner usr
      then (case AList.delete sid (users s) of
              [] \<Rightarrow> serverSettings s
            | (k, newOwner) # others \<Rightarrow> (serverSettings s)\<lparr>ownerId := Some (u_id newOwner)\<rparr>)
      else serverSettings s)"
  by (simp add: on_disconnect_def Let_def split: prod.splits list.splits)











section \<open>Succession of the owner\<close>

text \<open>
  Claim C2, as the code has it. When a user flagged as owner disconnects and other users
  remain, the first remaining entry of the \<open>users\<close> map, in the map's insertion order,
  is flagged as owner within the same \<open>disconnect\<close> event, the other entries stay as
  they are, \<open>ownerId\<close> becomes the promoted user's id, and \<open>owner_status\<close> is sent to that
  user and the settings to everyone. When the entries of the map are in the order of
  their \<open>joinTime\<close>, no remaining user has an earlier \<open>joinTime\<close> than the promoted one.
\<close>

theorem owner_succession:
  assumes "map_of (users s) sid = Some usr" "isOwner usr"
    and "AList.delete sid (users s) = (k, v) # others"
  shows "users (fst (handle s \<lparr>sock = sid, now = t, uuid = i, ev = Disconnect\<rparr>)) =
           (k, v\<lparr>isOwner := True\<rparr>) # others \<and>
         ownerId (serverSettings (fst (handle s \<lparr>sock = sid, now = t, uuid = i, ev = Disconnect\<rparr>))) =
           Some (u_id v) \<and>
         Emit (To_room (u_id v)) (Owner_status True)
           \<in> set (snd (handle s \<lparr>sock = sid, now = t, uuid = i, ev = Disconnect\<rparr>)) \<and>
         Emit To_all (Server_settings ((serverSettings s)\<lparr>ownerId := Some (u_id v)\<rparr>))
           \<in> set (snd (handle s \<lparr>sock = sid, now = t, uuid = i, ev = Disconnect\<rparr>)) \<and>
         (sorted (map (\<lambda>(k, u). joinTime u) (users s)) \<longrightarrow>
            (\<forall>(k', u')\<in>set others. joinTime v \<le> joinTime u'))"
proof -
  from assms have "users (fst (on_disconnect s sid t i)) = (k, v\<lparr>isOwner := True\<rparr>) # others"
    by (simp add: on_disconnect_users)
  moreover from assms
  have "ownerId (serverSettings (fst (on_disconnect s sid t i))) = Some (u_id v)"
    by (simp add: on_disconnect_settings)
  moreover from assms
  have "Emit (To_room (u_id v)) (Owner_status True) \<in> set (snd (on_disconnect s sid t i))"
    and "Emit To_all (Server_settings ((serverSettings s)\<lparr>ownerId := Some (u_id v)\<rparr>))
           \<in> set (snd (on_disconnect s sid t i))"
    by (simp_all add: on_disconnect_def Let_def split: prod.splits)
  moreover have "\<forall>(k', u')\<in>set others. joinTime v \<le> joinTime u'"
    if "sorted (map (\<lambda>(k, u). joinTime u) (users s))"
  proof -
    from that have "sorted (map (\<lambda>(k, u). joinTime u) (AList.delete sid (users s)))"
      unfolding AList.delete_eq by (rule sorted_filter)
    with assms(3) show ?thesis by auto
  qed
  ultimately show ?thesis by (simp add: handle_def)
qed

lemma state_three_users:
  "users state_three =
     [(''A'', \<lparr>u_id = ''A'', u_username = utf16 ''alice'', u_bubbleColor = utf16 ''#007bff'',
               isOwner = True, joinTime = 2\<rparr>),
      (''B'', \<lparr>u_id = ''B'', u_username = utf16 ''bob'', u_bubbleColor = utf16 ''#007bff'',
               isOwner = False, joinTime = 4\<rparr>),
      (''C'', \<lparr>u_id = ''C'', u_username = utf16 ''carol'', u_bubbleColor = utf16 ''#007bff'',
               isOwner = False, joinTime = 6\<rparr>)]"
  by (simp add: state_three_def trace_three_def eval_defs)

text \<open>A, B and C joined in this order; A disconnects and B is promoted.\<close>

theorem owner_succession_witness:
  "map_of (users state_three) ''A'' = Some (snd (hd (users state_three))) \<and>
   isOwner (snd (hd (users state_three))) \<and>
   AList.delete ''A'' (users state_three) = tl (users state_three) \<and>
   sorted (map (\<lambda>(k, u). joinTime u) (users state_three)) \<and>
   users (fst (handle state_three (inp ''A'' 7 ''u7'' Disconnect))) =
     [(''B'', \<lparr>u_id = ''B'', u_username = utf16 ''bob'', u_bubbleColor = utf16 ''#007bff'',
               isOwner = True, joinTime = 4\<rparr>),
      (''C'', \<lparr>u_id = ''C'', u_username = utf16 ''carol'', u_bubbleColor = utf16 ''#007bff'',
               isOwner = False, joinTime = 6\<rparr>)] \<and>
   ownerId (serverSettings (fst (handle state_three (inp ''A'' 7 ''u7'' Disconnect)))) =
     Some ''B'' \<and>
   Emit (To_room ''B'') (Owner_status True)
     \<in> set (snd (handle state_three (inp ''A'' 7 ''u7'' Disconnect)))"
proof -
  have u: "map_of (users state_three) ''A'' = Some (snd (hd (users state_three)))"
    by (simp add: state_three_users)
  have o: "isOwner (snd (hd (users state_three)))"
    by (simp add: state_three_users)
  have d: "AList.delete ''A'' (users state_three) =
     (''B'', \<lparr>u_id = ''B'', u_username = utf16 ''bob'', u_bubbleColor = utf16 ''#007bff'',
               isOwner = False, joinTime = 4\<rparr>) #
     [(''C'', \<lparr>u_id = ''C'', u_username = utf16 ''carol'', u_bubbleColor = utf16 ''#007bff'',
               isOwner = False, joinTime = 6\<rparr>)]"
    by (simp add: state_three_users)
  have s: "sorted (map (\<lambda>(k, u). joinTime u) (users state_three))"
    by (simp add: state_three_users)
  from owner_succession [OF u o d, of 7 "''u7''"] u o d s
  show ?thesis by (simp add: inp_def state_three_users)
qed

text \<open>
  The claim as stated fails after B has sent \<open>user_join\<close> twice: B keeps its place in
  the map before C and has the later \<open>joinTime\<close>. When A disconnects, B is promoted,
  and the remaining user with the earliest \<open>joinTime\<close>, C, is not.
\<close>

theorem owner_succession_counterexample:
  "deliverable [] [] (trace_rejoin @ [inp ''A'' 8 ''u8'' Disconnect]) \<and>
   users state_rejoin =
     [(''A'', \<lparr>u_id = ''A'', u_username = utf16 ''alice'', u_bubbleColor = utf16 ''#007bff'',
               isOwner = True, joinTime = 2\<rparr>),
      (''B'', \<lparr>u_id = ''B'', u_username = utf16 ''bob'', u_bubbleColor = utf16 ''#007bff'',
               isOwner = False, joinTime = 7\<rparr>),
      (''C'', \<lparr>u_id = ''C'', u_username = utf16 ''carol'', u_bubbleColor = utf16 ''#007bff'',
               isOwner = False, joinTime = 6\<rparr>)] \<and>
   users (fst (handle state_rejoin (inp ''A'' 8 ''u8'' Disconnect))) =
     [(''B'', \<lparr>u_id = ''B'', u_username = utf16 ''bob'', u_bubbleColor = utf16 ''#007bff'',
               isOwner = True, joinTime = 7\<rparr>),
      (''C'', \<lparr>u_id = ''C'', u_username = utf16 ''carol'', u_bubbleColor = utf16 ''#007bff'',
               isOwner = False, joinTime = 6\<rparr>)] \<and>
   ownerId (serverSettings (fst (handle state_rejoin (inp ''A'' 8 ''u8'' Disconnect)))) =
     Some ''B''"
  by (simp add: state_rejoin_def trace_rejoin_def trace_three_def eval_defs)

section \<open>Message ids are distinct\<close>

text \<open>
  The ids of the log come from \<open>uuidv4()\<close>. When the identifiers supplied to the events
  of a run are pairwise distinct, so are the ids of the log it reaches.
\<close>

lemma splice1_distinct:
  "distinct (map f xs) \<Longrightarrow> distinct (map f (splice1 i xs)) \<and> set (splice1 i xs) \<subseteq> set xs"
proof -
  assume d: "distinct (map f xs)"
  have "map f (splice1 i xs) = take i (map f xs) @ drop (Suc i) (map f xs)"
    by (simp add: splice1_def take_map drop_map)
  moreover have "distinct (take i (map f xs) @ drop (Suc i) (map f xs))"
    using d set_take_disj_set_drop_if_distinct [of "map f xs" i "Suc i"]
    by (simp add: distinct_take distinct_drop)
  moreover have "set (splice1 i xs) \<subseteq> set xs"
    using set_take_subset [of i xs] set_drop_subset [of "Suc i" xs]
    by (auto simp: splice1_def)
  ultimately show ?thesis by simp
qed

lemma map_list_update_same:
  "i < length xs \<Longrightarrow> f y = f (xs ! i) \<Longrightarrow> map f (xs[i := y]) = map f xs"
  by (simp add: map_update list_update_same_conv)

lemma message_ids_handle:
  assumes d: "distinct (map m_id (messages s))"
    and fresh: "uuid x \<notin> m_id ` set (messages s)"
  shows "distinct (map m_id (messages (fst (handle s x)))) \<and>
         m_id ` set (messages (fst (handle s x))) \<subseteq> insert (uuid x) (m_id ` set (messages s))"
proof -
  have same: "distinct (map m_id (messages s')) \<and>
              m_id ` set (messages s') \<subseteq> insert (uuid x) (m_id ` set (messages s))"
    if "map m_id (messages s') = map m_id (messages s)" for s'
  proof -
    from that d have "distinct (map m_id (messages s'))" by simp
    moreover from that have "set (map m_id (messages s')) = set (map m_id (messages s))"
      by simp
    then have "m_id ` set (messages s') = m_id ` set (messages s)" by simp
    ultimately show ?thesis by auto
  qed
  have app: "distinct (map m_id (messages s')) \<and>
             m_id ` set (messages s') \<subseteq> insert (uuid x) (m_id ` set (messages s))"
    if "messages s' = messages s @ [m]" "m_id m = uuid x" for s' m
    using that d fresh by auto
  show ?thesis
  proof (cases "ev x")
    case Connection
    then show ?thesis by (intro same) (simp add: handle_def on_connection_def Let_def)
  next
    case (User_join ud)
    then obtain c where "messages (fst (handle s x)) =
        messages s @ [system_message (uuid x) c (now x)]"
      by (simp add: handle_def on_user_join_def Let_def)
    then show ?thesis by (rule app) (simp add: system_message_def)
  next
    case (Change_username n)
    show ?thesis
    proof (cases "map_of (users s) (sock x)")
      case None
      with Change_username show ?thesis
        by (intro same) (simp add: handle_def on_change_username_def)
    next
      case (Some usr)
      with Change_username obtain c where "messages (fst (handle s x)) =
          messages s @ [system_message (uuid x) c (now x)]"
        by (simp add: handle_def on_change_username_def Let_def)
      then show ?thesis by (rule app) (simp add: system_message_def)
    qed
  next
    case (Change_bubble_color c)
    then show ?thesis
      by (intro same)
        (simp add: handle_def on_change_bubble_color_def Let_def split: option.splits)
  next
    case (Send_message md)
    show ?thesis
    proof (cases "fst (on_send_message s (sock x) (now x) (uuid x) md) = s")
      case True
      with Send_message show ?thesis by (intro same) (simp add: handle_def)
    next
      case False
      then obtain m where "messages (fst (on_send_message s (sock x) (now x) (uuid x) md)) =
          messages s @ [m]" "m_id m = uuid x"
        by (auto simp: on_send_message_def Let_def split: option.splits if_splits)
      with Send_message have "messages (fst (handle s x)) = messages s @ [m]" "m_id m = uuid x"
        by (simp_all add: handle_def)
      then show ?thesis by (rule app)
    qed
  next
    case (Edit_message k n)
    show ?thesis
    proof (cases "findIndex (\<lambda>msg. m_id msg = k) (messages s)")
      case None
      with Edit_message show ?thesis by (intro same) (simp add: handle_def on_edit_message_def)
    next
      case (Some idx)
      from findIndex_Some [OF Some] have "idx < length (messages s)" by simp
      with Edit_message Some show ?thesis
        by (intro same)
          (simp add: handle_def on_edit_message_def Let_def map_list_update_same)
    qed
  next
    case (Delete_message k)
    show ?thesis
    proof (cases "fst (on_delete_message s (sock x) k) = s")
      case True
      with Delete_message show ?thesis by (intro same) (simp add: handle_def)
    next
      case False
      then obtain idx where
        "messages (fst (on_delete_message s (sock x) k)) = splice1 idx (messages s)"
        by (auto simp: on_delete_message_def split: option.splits if_splits)
      with splice1_distinct [OF d, of idx] Delete_message show ?thesis
        by (auto simp: handle_def)
    qed
  next
    case (Add_reaction k e)
    show ?thesis
    proof (cases "findIndex (\<lambda>msg. m_id msg = k) (messages s)")
      case None
      with Add_reaction show ?thesis by (intro same) (simp add: handle_def on_add_reaction_def)
    next
      case (Some idx)
      from findIndex_Some [OF Some] have "idx < length (messages s)" by simp
      with Add_reaction Some show ?thesis
        by (intro same)
          (simp add: handle_def on_add_reaction_def Let_def map_list_update_same
            split: option.splits)
    qed
  next
    case (Join_voice r)
    then show ?thesis
      by (intro same) (simp add: handle_def on_join_voice_def Let_def split: option.splits)
  next
    case (Leave_voice r)
    then show ?thesis
      by (intro same) (simp add: handle_def on_leave_voice_def Let_def split: option.splits)
  next
    case (Update_server_settings p)
    then show ?thesis
      by (intro same)
        (simp add: handle_def on_update_server_settings_def Let_def split: option.splits)
  next
    case (Search_messages q)
    then show ?thesis by (intro same) (simp add: handle_def on_search_messages_def Let_def)
  next
    case (Webrtc_offer tg p)
    then show ?thesis by (intro same) (simp add: handle_def on_webrtc_offer_def)
  next
    case (Webrtc_answer tg p)
    then show ?thesis by (intro same) (simp add: handle_def on_webrtc_answer_def)
  next
    case (Webrtc_ice_candidate tg p)
    then show ?thesis by (intro same) (simp add: handle_def on_webrtc_ice_candidate_def)
  next
    case (Missing_payload nm)
    then show ?thesis
      by (intro same)
        (simp add: handle_def on_missing_payload_def split: option.splits event_name.splits)
  next
    case Disconnect
    show ?thesis
    proof (cases "map_of (users s) (sock x)")
      case None
      with Disconnect show ?thesis by (intro same) (simp add: handle_def on_disconnect_def)
    next
      case (Some usr)
      with Disconnect obtain c where "messages (fst (handle s x)) =
          messages s @ [system_message (uuid x) c (now x)]"
        by (simp add: handle_def messages_disconnect)
      then show ?thesis by (rule app) (simp add: system_message_def)
    qed
  qed
qed

lemma message_ids_run:
  "distinct (map m_id (messages s)) \<Longrightarrow> distinct (map uuid xs) \<Longrightarrow>
   m_id ` set (messages s) \<inter> uuid ` set xs = {} \<Longrightarrow>
   distinct (map m_id (messages (run s xs)))"
proof (induction xs arbitrary: s)
  case Nil
  then show ?case by simp
next
  case (Cons x xs)
  from Cons.prems have fresh: "uuid x \<notin> m_id ` set (messages s)" by auto
  note step = message_ids_handle [OF Cons.prems(1) fresh]
  from Cons.prems have "insert (uuid x) (m_id ` set (messages s)) \<inter> uuid ` set xs = {}"
    by auto
  with step have "m_id ` set (messages (fst (handle s x))) \<inter> uuid ` set xs = {}"
    by blast
  with Cons.IH [of "fst (handle s x)"] step Cons.prems(2) show ?case by simp
qed

lemma message_ids_distinct:
  "distinct (map uuid xs) \<Longrightarrow> distinct (map m_id (messages (run initial_state xs)))"
  by (rule message_ids_run) (simp_all add: initial_state_def)

section \<open>Authors of logged messages\<close>

text \<open>
  Along a deliverable trace a socket that is connected and has no entry in \<open>users\<close> has
  authored no message of the log: only registered sockets append user messages, only a
  disconnect removes a registration, and the id of a disconnected socket is not used again.
\<close>

lemma keys_update_present:
  "map_of al k = Some v \<Longrightarrow> fst ` set (AList.update k w al) = fst ` set al"
  by (auto simp: AList.dom_update dest: map_of_SomeD intro: rev_image_eqI)

lemma keys_delete: "fst ` set (AList.delete k al) = fst ` set al - {k}"
proof -
  have "set (map fst (AList.delete k al)) = set (map fst al) - {k}"
    by (simp add: AList.delete_keys)
  then show ?thesis by simp
qed

lemma keys_handle:
  "fst ` set (users (fst (handle s x))) =
     (case ev x of
        User_join d \<Rightarrow> insert (sock x) (fst ` set (users s))
      | Disconnect \<Rightarrow> fst ` set (users s) - {sock x}
      | _ \<Rightarrow> fst ` set (users s))"
proof (cases "ev x")
  case (User_join d)
  then show ?thesis by (simp add: handle_def on_user_join_def Let_def AList.dom_update)
next
  case (Change_username n)
  then show ?thesis
    by (cases "map_of (users s) (sock x)")
      (simp_all add: handle_def on_change_username_def Let_def keys_update_present)
next
  case (Change_bubble_color c)
  then show ?thesis
    by (cases "map_of (users s) (sock x)")
      (simp_all add: handle_def on_change_bubble_color_def Let_def keys_update_present)
next
  case Disconnect
  show ?thesis
  proof (cases "map_of (users s) (sock x)")
    case None
    then have "sock x \<notin> fst ` set (users s)" by (simp add: map_of_eq_None_iff)
    with None Disconnect show ?thesis by (simp add: handle_def on_disconnect_def)
  next
    case (Some usr)
    have "map fst (users (fst (on_disconnect s (sock x) t i))) =
          map fst (AList.delete (sock x) (users s))" for t i
      by (cases "AList.delete (sock x) (users s)")
        (simp_all add: on_disconnect_users [OF Some] split: prod.splits)
    then have "set (map fst (users (fst (on_disconnect s (sock x) t i)))) =
          set (map fst (AList.delete (sock x) (users s)))" for t i
      by (rule arg_cong)
    then have "fst ` set (users (fst (on_disconnect s (sock x) t i))) =
          fst ` set (AList.delete (sock x) (users s))" for t i
      by simp
    with Disconnect show ?thesis by (simp add: handle_def keys_delete)
  qed
qed (simp_all add: handle_def on_connection_def on_send_message_def on_edit_message_def
    on_delete_message_def on_add_reaction_def on_join_voice_def on_leave_voice_def
    on_update_server_settings_def on_search_messages_def on_webrtc_offer_def
    on_webrtc_answer_def on_webrtc_ice_candidate_def on_missing_payload_def Let_def
    split: option.splits event_name.splits)

lemma authors_same: "messages s' = messages s \<Longrightarrow> authors s' = authors s"
  by (simp add: authors_def)

lemma authors_subset: "set (messages s') \<subseteq> set (messages s) \<Longrightarrow> authors s' \<subseteq> authors s"
  by (auto simp: authors_def)

lemma authors_append:
  "messages s' = messages s @ [m] \<Longrightarrow>
   authors s' = authors s \<union> (case m_userId m of None \<Rightarrow> {} | Some a \<Rightarrow> {a})"
  by (auto simp: authors_def split: option.splits)

lemma authors_list_update:
  assumes "i < length (messages s)" "messages s' = (messages s)[i := y]"
    and "m_userId y = m_userId (messages s ! i)"
  shows "authors s' \<subseteq> authors s"
proof
  fix a
  assume "a \<in> authors s'"
  then obtain m where m: "m \<in> set ((messages s)[i := y])" "m_userId m = Some a"
    by (auto simp: authors_def assms(2))
  from m(1) have "m = y \<or> m \<in> set (messages s)"
    using set_update_subset_insert [of "messages s" i y] by auto
  moreover from assms(1) have "messages s ! i \<in> set (messages s)" by simp
  ultimately show "a \<in> authors s"
    using m(2) assms(3) by (auto simp: authors_def)
qed

lemma authors_handle:
  "authors (fst (handle s x)) \<subseteq>
     (case ev x of
        Send_message d \<Rightarrow> authors s \<union> ({sock x} \<inter> fst ` set (users s))
      | _ \<Rightarrow> authors s)"
proof (cases "ev x")
  case Connection
  have "messages (fst (handle s x)) = messages s"
    using Connection by (simp add: handle_def on_connection_def Let_def)
  from authors_same [OF this] Connection show ?thesis by simp
next
  case (User_join ud)
  then obtain c where "messages (fst (handle s x)) =
      messages s @ [system_message (uuid x) c (now x)]"
    by (simp add: handle_def on_user_join_def Let_def)
  from authors_append [OF this] User_join show ?thesis by (simp add: system_message_def)
next
  case (Change_username n)
  show ?thesis
  proof (cases "map_of (users s) (sock x)")
    case None
    with Change_username show ?thesis by (simp add: handle_def on_change_username_def)
  next
    case (Some usr)
    with Change_username obtain c where "messages (fst (handle s x)) =
        messages s @ [system_message (uuid x) c (now x)]"
      by (simp add: handle_def on_change_username_def Let_def)
    from authors_append [OF this] Change_username show ?thesis
      by (simp add: system_message_def)
  qed
next
  case (Change_bubble_color c)
  have "messages (fst (handle s x)) = messages s"
    using Change_bubble_color
    by (simp add: handle_def on_change_bubble_color_def Let_def split: option.splits)
  from authors_same [OF this] Change_bubble_color show ?thesis by simp
next
  case (Send_message md)
  show ?thesis
  proof (cases "map_of (users s) (sock x)")
    case None
    with Send_message show ?thesis by (simp add: handle_def on_send_message_def)
  next
    case (Some usr)
    then have reg: "sock x \<in> fst ` set (users s)"
      by (auto dest: map_of_SomeD intro: rev_image_eqI)
    show ?thesis
    proof (cases "sanitizeInput (md_content md) = [] \<and> md_attachment md = None")
      case True
      with Some Send_message show ?thesis by (simp add: handle_def on_send_message_def)
    next
      case False
      with Some obtain m where
        "messages (fst (on_send_message s (sock x) (now x) (uuid x) md)) = messages s @ [m]"
        "m_userId m = Some (sock x)"
        by (simp add: on_send_message_def Let_def)
      with authors_append [of "fst (on_send_message s (sock x) (now x) (uuid x) md)" s m]
        Send_message reg
      show ?thesis by (simp add: handle_def)
    qed
  qed
next
  case (Edit_message k n)
  show ?thesis
  proof (cases "findIndex (\<lambda>msg. m_id msg = k) (messages s)")
    case None
    with Edit_message show ?thesis by (simp add: handle_def on_edit_message_def)
  next
    case (Some idx)
    from findIndex_Some [OF Some] have len: "idx < length (messages s)" by simp
    show ?thesis
    proof (cases "m_userId (messages s ! idx) = Some (sock x)")
      case False
      with Some Edit_message show ?thesis by (simp add: handle_def on_edit_message_def)
    next
      case True
      let ?y = "(messages s ! idx)\<lparr>m_content := processMessage (sanitizeInput n),
                  m_edited := True, m_editedAt := Some (now x)\<rparr>"
      from True Some Edit_message have "messages (fst (handle s x)) = (messages s)[idx := ?y]"
        by (simp add: handle_def on_edit_message_def Let_def)
      from authors_list_update [OF len this] Edit_message show ?thesis by simp
    qed
  qed
next
  case (Delete_message k)
  show ?thesis
  proof (cases "fst (on_delete_message s (sock x) k) = s")
    case True
    with Delete_message show ?thesis by (simp add: handle_def)
  next
    case False
    then obtain idx where
      "messages (fst (on_delete_message s (sock x) k)) = splice1 idx (messages s)"
      by (auto simp: on_delete_message_def split: option.splits if_splits)
    moreover have "set (splice1 idx (messages s)) \<subseteq> set (messages s)"
      using set_take_subset [of idx "messages s"] set_drop_subset [of "Suc idx" "messages s"]
      by (auto simp: splice1_def)
    ultimately have "authors (fst (on_delete_message s (sock x) k)) \<subseteq> authors s"
      by (intro authors_subset) simp
    with Delete_message show ?thesis by (simp add: handle_def)
  qed
next
  case (Add_reaction k e)
  show ?thesis
  proof (cases "findIndex (\<lambda>msg. m_id msg = k) (messages s)")
    case None
    with Add_reaction show ?thesis by (simp add: handle_def on_add_reaction_def)
  next
    case (Some idx)
    from findIndex_Some [OF Some] have len: "idx < length (messages s)" by simp
    show ?thesis
    proof (cases "map_of (users s) (sock x)")
      case None
      with Some Add_reaction show ?thesis by (simp add: handle_def on_add_reaction_def)
    next
      case (Some usr)
      note r = on_add_reaction_registered [OF \<open>findIndex _ _ = Some idx\<close> Some, of e]
      show ?thesis
      proof (cases "u_username usr \<in> set (reaction_users (messages s ! idx) e)")
        case True
        with r Add_reaction show ?thesis by (simp add: handle_def)
      next
        case False
        let ?y = "(messages s ! idx)\<lparr>m_reactions :=
                    Some (AList.update e (reaction_users (messages s ! idx) e @ [u_username usr])
                           (reactions_of (messages s ! idx)))\<rparr>"
        from False r Add_reaction have "messages (fst (handle s x)) = (messages s)[idx := ?y]"
          by (simp add: handle_def)
        from authors_list_update [OF len this] Add_reaction show ?thesis by simp
      qed
    qed
  qed
next
  case (Join_voice r)
  have "messages (fst (handle s x)) = messages s"
    using Join_voice by (simp add: handle_def on_join_voice_def Let_def split: option.splits)
  from authors_same [OF this] Join_voice show ?thesis by simp
next
  case (Leave_voice r)
  have "messages (fst (handle s x)) = messages s"
    using Leave_voice by (simp add: handle_def on_leave_voice_def Let_def split: option.splits)
  from authors_same [OF this] Leave_voice show ?thesis by simp
next
  case (Update_server_settings p)
  have "messages (fst (handle s x)) = messages s"
    using Update_server_settings
    by (simp add: handle_def on_update_server_settings_def Let_def split: option.splits)
  from authors_same [OF this] Update_server_settings show ?thesis by simp
next
  case (Search_messages q)
  then show ?thesis by (simp add: handle_def on_search_messages_def Let_def)
next
  case (Webrtc_offer tg p)
  then show ?thesis by (simp add: handle_def on_webrtc_offer_def)
next
  case (Webrtc_answer tg p)
  then show ?thesis by (simp add: handle_def on_webrtc_answer_def)
next
  case (Webrtc_ice_candidate tg p)
  then show ?thesis by (simp add: handle_def on_webrtc_ice_candidate_def)
next
  case Disconnect
  show ?thesis
  proof (cases "map_of (users s) (sock x)")
    case None
    with Disconnect show ?thesis by (simp add: handle_def on_disconnect_def)
  next
    case (Some usr)
    with Disconnect obtain c where "messages (fst (handle s x)) =
        messages s @ [system_message (uuid x) c (now x)]"
      by (simp add: handle_def messages_disconnect)
    from authors_append [OF this] Disconnect show ?thesis by (simp add: system_message_def)
  qed
next
  case (Missing_payload nm)
  have "fst (on_missing_payload s (sock x) nm) = s"
    by (simp add: on_missing_payload_def split: option.splits event_name.splits)
  with Missing_payload show ?thesis by (simp add: handle_def)
qed

lemma keys_handle_bounds:
  "ev x \<noteq> Disconnect \<Longrightarrow>
   fst ` set (users s) \<subseteq> fst ` set (users (fst (handle s x))) \<and>
   fst ` set (users (fst (handle s x))) \<subseteq> insert (sock x) (fst ` set (users s))"
  using keys_handle [of s x] by (cases "ev x") auto

lemma authors_handle_bounds:
  "authors (fst (handle s x)) \<subseteq> authors s \<union> ({sock x} \<inter> fst ` set (users s))"
  using authors_handle [of s x] by (cases "ev x") auto

lemma deliverable_Cons_other:
  "ev x \<noteq> Connection \<Longrightarrow> ev x \<noteq> Disconnect \<Longrightarrow>
   deliverable conn used (x # xs) = (sock x \<in> set conn \<and> deliverable conn used xs)"
  by (cases "ev x") simp_all

lemma connected_Cons_other:
  "ev x \<noteq> Connection \<Longrightarrow> ev x \<noteq> Disconnect \<Longrightarrow>
   connected conn (x # xs) = connected conn xs"
  by (cases "ev x") simp_all

lemma authors_tracked_connection:
  assumes "authors_tracked conn used s" "ev x = Connection" "sock x \<notin> set used"
  shows "authors_tracked (sock x # conn) (sock x # used) (fst (handle s x))"
proof -
  let ?s1 = "fst (handle s x)"
  from assms(2) have k: "fst ` set (users ?s1) = fst ` set (users s)"
    by (simp add: keys_handle)
  from assms(2) authors_handle [of s x] have a: "authors ?s1 \<subseteq> authors s" by simp
  from assms(1) have t: "set conn \<subseteq> set used" "fst ` set (users s) \<subseteq> set conn"
    "authors s \<subseteq> set used" "authors s \<inter> set conn \<subseteq> fst ` set (users s)"
    by (simp_all add: authors_tracked_def)
  have "set (sock x # conn) \<subseteq> set (sock x # used)" using t(1) by auto
  moreover have "fst ` set (users ?s1) \<subseteq> set (sock x # conn)" using k t(2) by auto
  moreover have "authors ?s1 \<subseteq> set (sock x # used)" using a t(3) by auto
  moreover have "authors ?s1 \<inter> set (sock x # conn) \<subseteq> fst ` set (users ?s1)"
  proof
    fix b
    assume b: "b \<in> authors ?s1 \<inter> set (sock x # conn)"
    with a have "b \<in> authors s" by blast
    with t(3) assms(3) have "b \<noteq> sock x" by blast
    with b \<open>b \<in> authors s\<close> have "b \<in> authors s \<inter> set conn" by simp
    with t(4) k show "b \<in> fst ` set (users ?s1)" by blast
  qed
  ultimately show ?thesis unfolding authors_tracked_def by blast
qed

lemma authors_tracked_disconnect:
  assumes "authors_tracked conn used s" "ev x = Disconnect"
  shows "authors_tracked (removeAll (sock x) conn) used (fst (handle s x))"
proof -
  let ?s1 = "fst (handle s x)"
  from assms(2) have k: "fst ` set (users ?s1) = fst ` set (users s) - {sock x}"
    by (simp add: keys_handle)
  from assms(2) authors_handle [of s x] have a: "authors ?s1 \<subseteq> authors s" by simp
  from assms(1) have t: "set conn \<subseteq> set used" "fst ` set (users s) \<subseteq> set conn"
    "authors s \<subseteq> set used" "authors s \<inter> set conn \<subseteq> fst ` set (users s)"
    by (simp_all add: authors_tracked_def)
  have c: "set (removeAll (sock x) conn) = set conn - {sock x}" by simp
  have "set (removeAll (sock x) conn) \<subseteq> set used" using t(1) c by blast
  moreover have "fst ` set (users ?s1) \<subseteq> set (removeAll (sock x) conn)"
    using k t(2) c by blast
  moreover have "authors ?s1 \<subseteq> set used" using a t(3) by blast
  moreover have "authors ?s1 \<inter> set (removeAll (sock x) conn) \<subseteq> fst ` set (users ?s1)"
    using a t(4) k c by blast
  ultimately show ?thesis unfolding authors_tracked_def by blast
qed

lemma tracked_sets:
  fixes C U K A K' A' :: "'a set"
  assumes "C \<subseteq> U" "K \<subseteq> C" "A \<subseteq> U" "A \<inter> C \<subseteq> K"
    and "K \<subseteq> K'" "K' \<subseteq> insert x K" "A' \<subseteq> A \<union> ({x} \<inter> K)" "x \<in> C"
  shows "K' \<subseteq> C \<and> A' \<subseteq> U \<and> A' \<inter> C \<subseteq> K'"
proof -
  have "K' \<subseteq> C" using assms(2,6,8) by blast
  moreover have "A' \<subseteq> U" using assms(1,2,3,7) by blast
  moreover have "A' \<inter> C \<subseteq> K'" using assms(4,5,7) by blast
  ultimately show ?thesis by simp
qed

lemma authors_tracked_other:
  assumes "authors_tracked conn used s" "ev x \<noteq> Connection" "ev x \<noteq> Disconnect"
    and "sock x \<in> set conn"
  shows "authors_tracked conn used (fst (handle s x))"
proof -
  let ?s1 = "fst (handle s x)"
  note k = keys_handle_bounds [OF assms(3), of s] and a = authors_handle_bounds [of s x]
  from assms(1) have t: "set conn \<subseteq> set used" "fst ` set (users s) \<subseteq> set conn"
    "authors s \<subseteq> set used" "authors s \<inter> set conn \<subseteq> fst ` set (users s)"
    by (simp_all add: authors_tracked_def)
  from k have k1: "fst ` set (users s) \<subseteq> fst ` set (users ?s1)"
    and k2: "fst ` set (users ?s1) \<subseteq> insert (sock x) (fst ` set (users s))"
    by simp_all
  from tracked_sets [OF t k1 k2 a assms(4)] t(1) show ?thesis
    unfolding authors_tracked_def by simp
qed

lemma authors_tracked_run:
  "authors_tracked conn used s \<Longrightarrow> deliverable conn used xs \<Longrightarrow>
   \<exists>used'. authors_tracked (connected conn xs) used' (run s xs)"
proof (induction xs arbitrary: conn used s)
  case Nil
  then show ?case by auto
next
  case (Cons x xs)
  let ?s1 = "fst (handle s x)"
  consider "ev x = Connection" | "ev x = Disconnect"
    | "ev x \<noteq> Connection" "ev x \<noteq> Disconnect"
    by blast
  then show ?case
  proof cases
    case 1
    with Cons.prems(2) have fresh: "sock x \<notin> set used"
      and d: "deliverable (sock x # conn) (sock x # used) xs" by simp_all
    from Cons.IH [OF authors_tracked_connection [OF Cons.prems(1) 1 fresh] d] 1
    show ?thesis by simp
  next
    case 2
    with Cons.prems(2) have d: "deliverable (removeAll (sock x) conn) used xs" by simp
    from Cons.IH [OF authors_tracked_disconnect [OF Cons.prems(1) 2] d] 2
    show ?thesis by simp
  next
    case 3
    from Cons.prems(2) deliverable_Cons_other [OF 3, of conn used xs]
    have c: "sock x \<in> set conn" and d: "deliverable conn used xs"
      by blast+
    from Cons.IH [OF authors_tracked_other [OF Cons.prems(1) 3 c] d]
    show ?thesis by (simp only: connected_Cons_other [OF 3] run.simps)
  qed
qed

lemma unregistered_not_author:
  assumes "deliverable [] [] xs" "sid \<in> set (connected [] xs)"
    and "map_of (users (run initial_state xs)) sid = None"
  shows "\<forall>m\<in>set (messages (run initial_state xs)). m_userId m \<noteq> Some sid"
proof -
  have "authors_tracked [] [] initial_state"
    by (simp add: authors_tracked_def authors_def initial_state_def)
  from authors_tracked_run [OF this assms(1)] obtain used' where
    "authors_tracked (connected [] xs) used' (run initial_state xs)" ..
  then have "authors (run initial_state xs) \<inter> set (connected [] xs) \<subseteq>
             fst ` set (users (run initial_state xs))"
    by (simp add: authors_tracked_def)
  moreover from assms(3) have "sid \<notin> fst ` set (users (run initial_state xs))"
    by (simp add: map_of_eq_None_iff)
  ultimately have "sid \<notin> authors (run initial_state xs)" using assms(2) by auto
  then show ?thesis by (auto simp: authors_def)
qed

section \<open>Events of a connection without a registered identity\<close>

lemma unregistered_guarded:
  assumes "map_of (users s) sid = None"
  shows "on_change_username s sid t i n = (s, [])"
    and "on_change_bubble_color s sid c = (s, [])"
    and "on_send_message s sid t i d = (s, [])"
    and "on_add_reaction s sid k e = (s, [])"
    and "on_join_voice s sid r = (s, [])"
    and "on_update_server_settings s sid p = (s, [])"
    and "on_missing_payload s sid On_send_message = (s, [])"
  using assms
  by (simp_all add: on_change_username_def on_change_bubble_color_def on_send_message_def
      on_add_reaction_def on_join_voice_def on_update_server_settings_def
      on_missing_payload_def split: option.splits)

lemma not_author_edit_delete:
  assumes "map_of (users s) sid = None" "\<forall>m\<in>set (messages s). m_userId m \<noteq> Some sid"
  shows "on_edit_message s sid t k n = (s, [])" and "on_delete_message s sid k = (s, [])"
  using assms
  by (auto simp: on_edit_message_def on_delete_message_def dest: findIndex_member
      split: option.splits)

lemma on_leave_voice_actions:
  "map_of (voiceRooms s) r = Some room \<Longrightarrow>
   snd (on_leave_voice s sid r) =
     [Socket_leave (voice_room r), Emit (To_room (voice_room r)) (Voice_user_left sid)]"
  by (simp add: on_leave_voice_def Let_def)

text \<open>
  Claim C3, as the code has it. For a socket with no entry in \<open>users\<close>, the events
  \<open>change_username\<close>, \<open>change_bubble_color\<close>, \<open>send_message\<close> (with or without a payload),
  \<open>add_reaction\<close>, \<open>join_voice\<close> and \<open>update_server_settings\<close> change nothing and send
  nothing, in every state. In every state that a deliverable run reaches, \<open>edit_message\<close>
  and \<open>delete_message\<close> of a connected socket with no entry in \<open>users\<close> change nothing and
  send nothing. The other handlers do not look the caller up: \<open>search_messages\<close> answers
  the caller with the matching messages, \<open>leave_voice\<close> for an existing room announces
  \<open>voice_user_left\<close> to the room, and each signaling event is relayed to its target.
\<close>

theorem unregistered_events:
  assumes "map_of (users s) sid = None"
  shows "handle s \<lparr>sock = sid, now = t, uuid = i, ev = Change_username n\<rparr> = (s, []) \<and>
         handle s \<lparr>sock = sid, now = t, uuid = i, ev = Change_bubble_color c\<rparr> = (s, []) \<and>
         handle s \<lparr>sock = sid, now = t, uuid = i, ev = Send_message d\<rparr> = (s, []) \<and>
         handle s \<lparr>sock = sid, now = t, uuid = i, ev = Missing_payload On_send_message\<rparr> =
           (s, []) \<and>
         handle s \<lparr>sock = sid, now = t, uuid = i, ev = Add_reaction k e\<rparr> = (s, []) \<and>
         handle s \<lparr>sock = sid, now = t, uuid = i, ev = Join_voice r\<rparr> = (s, []) \<and>
         handle s \<lparr>sock = sid, now = t, uuid = i, ev = Update_server_settings p\<rparr> = (s, []) \<and>
         (deliverable [] [] xs \<longrightarrow> s = run initial_state xs \<longrightarrow> sid \<in> set (connected [] xs) \<longrightarrow>
            handle s \<lparr>sock = sid, now = t, uuid = i, ev = Edit_message k n\<rparr> = (s, []) \<and>
            handle s \<lparr>sock = sid, now = t, uuid = i, ev = Delete_message k\<rparr> = (s, [])) \<and>
         handle s \<lparr>sock = sid, now = t, uuid = i, ev = Search_messages q\<rparr> =
           (s, [Emit To_sender (Search_results
                  (filter (\<lambda>m. contains_text (toLowerCase (m_content m))
                                  (toLowerCase (sanitizeInput q)) \<or>
                                contains_text (toLowerCase (m_username m))
                                  (toLowerCase (sanitizeInput q)))
                     (messages s)))]) \<and>
         (map_of (voiceRooms s) r = Some room \<longrightarrow>
            snd (handle s \<lparr>sock = sid, now = t, uuid = i, ev = Leave_voice r\<rparr>) =
              [Socket_leave (voice_room r),
               Emit (To_room (voice_room r)) (Voice_user_left sid)]) \<and>
         handle s \<lparr>sock = sid, now = t, uuid = i, ev = Webrtc_offer tg w\<rparr> =
           (s, [Emit (To_room_except_sender tg) (Webrtc_offer_from w sid)]) \<and>
         handle s \<lparr>sock = sid, now = t, uuid = i, ev = Webrtc_answer tg w\<rparr> =
           (s, [Emit (To_room_except_sender tg) (Webrtc_answer_from w sid)]) \<and>
         handle s \<lparr>sock = sid, now = t, uuid = i, ev = Webrtc_ice_candidate tg w\<rparr> =
           (s, [Emit (To_room_except_sender tg) (Webrtc_ice_candidate_from w sid)])"
proof -
  have reach: "on_edit_message s sid t k n = (s, []) \<and> on_delete_message s sid k = (s, [])"
    if "deliverable [] [] xs" "s = run initial_state xs" "sid \<in> set (connected [] xs)"
  proof -
    from that assms have "\<forall>m\<in>set (messages s). m_userId m \<noteq> Some sid"
      using unregistered_not_author [of xs sid] by simp
    with assms show ?thesis by (simp add: not_author_edit_delete)
  qed
  from reach show ?thesis
    by (simp add: handle_def unregistered_guarded [OF assms] on_search_messages_eq
        on_leave_voice_actions on_webrtc_offer_def on_webrtc_answer_def
        on_webrtc_ice_candidate_def)
qed

text \<open>In \<open>state_chat\<close> the socket B is connected and has not joined.\<close>

theorem unregistered_events_witness:
  "map_of (users state_chat) ''B'' = None \<and>
   deliverable [] [] trace_chat \<and> connected [] trace_chat = [''B'', ''A''] \<and>
   map_of (voiceRooms state_chat) ''r1'' = Some [''A''] \<and>
   handle state_chat (inp ''B'' 6 ''u6'' (Change_username (Str (utf16 ''bob'')))) =
     (state_chat, []) \<and>
   handle state_chat (inp ''B'' 6 ''u6'' (Change_bubble_color (utf16 ''red''))) =
     (state_chat, []) \<and>
   handle state_chat (inp ''B'' 6 ''u6'' (sending ''hi'')) = (state_chat, []) \<and>
   handle state_chat (inp ''B'' 6 ''u6'' (Missing_payload On_send_message)) = (state_chat, []) \<and>
   handle state_chat (inp ''B'' 6 ''u6'' (Add_reaction ''u3'' (utf16 ''+1''))) =
     (state_chat, []) \<and>
   handle state_chat (inp ''B'' 6 ''u6'' (Join_voice ''r1'')) = (state_chat, []) \<and>
   handle state_chat (inp ''B'' 6 ''u6'' (Update_server_settings (owner_patch (Some ''B'')))) =
     (state_chat, []) \<and>
   handle state_chat (inp ''B'' 6 ''u6'' (Edit_message ''u3'' (Str (utf16 ''bye'')))) =
     (state_chat, []) \<and>
   handle state_chat (inp ''B'' 6 ''u6'' (Delete_message ''u3'')) = (state_chat, []) \<and>
   snd (handle state_chat (inp ''B'' 6 ''u6'' (Leave_voice ''r1''))) =
     [Socket_leave ''voice_r1'', Emit (To_room ''voice_r1'') (Voice_user_left ''B'')] \<and>
   handle state_chat (inp ''B'' 6 ''u6'' (Webrtc_answer ''A'' ''sdp'')) =
     (state_chat, [Emit (To_room_except_sender ''A'') (Webrtc_answer_from ''sdp'' ''B'')])"
proof -
  have u: "map_of (users state_chat) ''B'' = None"
    by (simp add: state_chat_eq)
  have d: "deliverable [] [] trace_chat"
    by (simp add: trace_chat_def eval_defs)
  have c: "connected [] trace_chat = [''B'', ''A'']"
    by (simp add: trace_chat_def eval_defs)
  have v: "map_of (voiceRooms state_chat) ''r1'' = Some [''A'']"
    by (simp add: state_chat_eq)
  note w = unregistered_events [OF u, where t = 6 and i = "''u6''" and k = "''u3''"
      and r = "''r1''" and xs = trace_chat and room = "[''A'']" and tg = "''A''"
      and w = "''sdp''"]
  from w d c have e: "\<And>n. handle state_chat \<lparr>sock = ''B'', now = 6, uuid = ''u6'',
        ev = Edit_message ''u3'' n\<rparr> = (state_chat, [])"
    and dl: "handle state_chat \<lparr>sock = ''B'', now = 6, uuid = ''u6'',
        ev = Delete_message ''u3''\<rparr> = (state_chat, [])"
    by (simp_all add: state_chat_def)
  from w v have l: "snd (handle state_chat \<lparr>sock = ''B'', now = 6, uuid = ''u6'',
        ev = Leave_voice ''r1''\<rparr>) =
      [Socket_leave (voice_room ''r1''),
       Emit (To_room (voice_room ''r1'')) (Voice_user_left ''B'')]"
    by simp
  from w u d c v e dl l show ?thesis
    by (simp add: inp_def sending_def sending_units_def voice_room_def)
qed

text \<open>
  The claim as stated fails in \<open>state_chat\<close>: B's \<open>search_messages\<close> is answered with the
  matching messages, B's \<open>leave_voice\<close> for the room of A is announced to that room, and
  B's \<open>webrtc_offer\<close>, \<open>webrtc_answer\<close> and \<open>webrtc_ice_candidate\<close> are relayed to A.
\<close>

theorem unregistered_events_counterexample:
  "deliverable [] [] (trace_chat @ [inp ''B'' 6 ''u6'' (Search_messages (Str (utf16 ''Hello'')))]) \<and>
   map_of (users state_chat) ''B'' = None \<and>
   handle state_chat (inp ''B'' 6 ''u6'' (Search_messages (Str (utf16 ''Hello'')))) =
     (state_chat, [Emit To_sender (Search_results [messages state_chat ! 1])]) \<and>
   handle state_chat (inp ''B'' 6 ''u6'' (Leave_voice ''r1'')) =
     (state_chat,
      [Socket_leave ''voice_r1'', Emit (To_room ''voice_r1'') (Voice_user_left ''B'')]) \<and>
   handle state_chat (inp ''B'' 6 ''u6'' (Webrtc_offer ''A'' ''sdp'')) =
     (state_chat, [Emit (To_room_except_sender ''A'') (Webrtc_offer_from ''sdp'' ''B'')]) \<and>
   handle state_chat (inp ''B'' 6 ''u6'' (Webrtc_answer ''A'' ''sdp'')) =
     (state_chat, [Emit (To_room_except_sender ''A'') (Webrtc_answer_from ''sdp'' ''B'')]) \<and>
   handle state_chat (inp ''B'' 6 ''u6'' (Webrtc_ice_candidate ''A'' ''ice'')) =
     (state_chat,
      [Emit (To_room_except_sender ''A'') (Webrtc_ice_candidate_from ''ice'' ''B'')])"
proof -
  have "deliverable [] []
      (trace_chat @ [inp ''B'' 6 ''u6'' (Search_messages (Str (utf16 ''Hello'')))])"
    by (simp add: trace_chat_def eval_defs)
  moreover have "map_of (users state_chat) ''B'' = None"
    by (simp add: state_chat_eq)
  moreover have "handle state_chat (inp ''B'' 6 ''u6'' (Search_messages (Str (utf16 ''Hello'')))) =
     (state_chat, [Emit To_sender (Search_results [messages state_chat ! 1])])"
    by (simp add: state_chat_eq eval_defs text_defs)
  moreover have "handle state_chat (inp ''B'' 6 ''u6'' (Leave_voice ''r1'')) =
     (state_chat,
      [Socket_leave ''voice_r1'', Emit (To_room ''voice_r1'') (Voice_user_left ''B'')])"
    by (simp add: state_chat_eq eval_defs)
  ultimately show ?thesis
    by (simp add: inp_def handle_def on_webrtc_offer_def on_webrtc_answer_def
        on_webrtc_ice_candidate_def)
qed

text \<open>
  An \<open>edit_message\<close> or \<open>add_reaction\<close> that arrives with no payload raises a \<open>TypeError\<close>
  before the handler looks anything up, whoever sends it; so do \<open>user_join\<close> and the
  signaling events, and \<open>send_message\<close> from a registered socket.
\<close>

lemma missing_payload_throws:
  "handle s \<lparr>sock = sid, now = t, uuid = i, ev = Missing_payload On_edit_message\<rparr> =
     (s, [Throw TypeError])"
  "handle s \<lparr>sock = sid, now = t, uuid = i, ev = Missing_payload On_add_reaction\<rparr> =
     (s, [Throw TypeError])"
  "handle s \<lparr>sock = sid, now = t, uuid = i, ev = Missing_payload On_user_join\<rparr> =
     (s, [Throw TypeError])"
  "handle s \<lparr>sock = sid, now = t, uuid = i, ev = Missing_payload On_webrtc_offer\<rparr> =
     (s, [Throw TypeError])"
  "handle s \<lparr>sock = sid, now = t, uuid = i, ev = Missing_payload On_webrtc_answer\<rparr> =
     (s, [Throw TypeError])"
  "handle s \<lparr>sock = sid, now = t, uuid = i, ev = Missing_payload On_webrtc_ice_candidate\<rparr> =
     (s, [Throw TypeError])"
  "map_of (users s) sid = Some usr \<Longrightarrow>
   handle s \<lparr>sock = sid, now = t, uuid = i, ev = Missing_payload On_send_message\<rparr> =
     (s, [Throw TypeError])"
  by (simp_all add: handle_def on_missing_payload_def)


end
